theory Spec2Isabelle
  imports Main "HOL-Library.Word"
begin

section \<open>The storage engine of FileSystemMock.c\<close>

text \<open>
  A shallow embedding of the in-memory file system of \<^verbatim>\<open>src/Programs/FileSystemMock.c\<close>:
  the three global arrays \<^verbatim>\<open>directory\<close>, \<^verbatim>\<open>file_data\<close> and \<^verbatim>\<open>used_space\<close> become one
  record that every operation takes and returns; every \<^verbatim>\<open>while\<close> loop becomes a recursive
  function over the same loop variables; an array access outside the declared bounds, which
  is undefined in C, is a value of type \<open>fault\<close>; the messages that \<^verbatim>\<open>put\<close>, \<^verbatim>\<open>get\<close> and
  \<^verbatim>\<open>delete\<close> print before returning are status values.
\<close>

subsection \<open>Constants\<close>

definition FILE_SYSTEM_SIZE :: nat where "FILE_SYSTEM_SIZE = 1310720"
definition BLOCK_SIZE :: nat where "BLOCK_SIZE = 2048"
definition DIRECTORY_SIZE :: nat where "DIRECTORY_SIZE = 128"
definition TOTAL_BLOCKS :: nat where "TOTAL_BLOCKS = FILE_SYSTEM_SIZE div BLOCK_SIZE"
definition MAX_FILE_SIZE :: nat where "MAX_FILE_SIZE = 98304"
definition MAX_FILE_BLOCKS :: nat where "MAX_FILE_BLOCKS = MAX_FILE_SIZE div BLOCK_SIZE"
definition MAX_FILE_NAME :: nat where "MAX_FILE_NAME = 255"

text \<open>The declared length of the field \<^verbatim>\<open>char file_name[255]\<close> of \<^verbatim>\<open>struct Inode\<close>.\<close>

definition FILE_NAME_FIELD :: nat where "FILE_NAME_FIELD = 255"

text \<open>\<^verbatim>\<open>enum State { NEGATIVE = -1, UNSET = 0, SET = 1 }\<close>\<close>

definition NEGATIVE :: int where "NEGATIVE = - 1"
definition UNSET :: int where "UNSET = 0"
definition SET :: int where "SET = 1"

definition NUL :: char where "NUL = CHR 0x00"

subsection \<open>Data\<close>

type_synonym byte = "8 word"

text \<open>
  \<^verbatim>\<open>struct Inode\<close>. The field \<^verbatim>\<open>size\<close> is called \<open>size_bytes\<close> here; \<open>file_name\<close> is the
  whole character array, the C string it holds is \<open>c_str\<close> of it.
\<close>

record Inode =
  used :: int
  file_name :: "char list"
  size_bytes :: nat
  time_created :: int
  blocks :: "int list"

record fs =
  directory :: "Inode list"
  file_data :: "byte list list"
  used_space :: "int list"

text \<open>
  A file of the host file system, as \<^verbatim>\<open>stat\<close>, \<^verbatim>\<open>fopen\<close> and \<^verbatim>\<open>fread\<close> show it to \<^verbatim>\<open>put\<close>:
  its bytes, and the position (if any) of a byte that cannot be read, so that a read
  reaching it ends with an I/O error.
\<close>

record host_file =
  contents :: "byte list"
  read_error_at :: "nat option"

datatype fault =
    NullPointer
  | FileNameOverflow nat
  | BlocksIndexOutOfRange nat
  | BlockIndexOutOfRange int

datatype put_status =
    PutOk
  | NameMissing
  | NameTooLong
  | InvalidName
  | HostFileNotFound
  | FileTooLarge
  | NotEnoughSpace
  | DirectoryFull
  | ReadError

datatype get_result =
    GetOk string "byte list"
  | GetNameMissing
  | GetNotFound

datatype delete_status =
    DeleteOk
  | DeleteNotFound

subsection \<open>Strings and integer conversions\<close>

text \<open>The C string held in a character array: the characters before the first NUL.\<close>

definition c_str :: "char list \<Rightarrow> string" where
  "c_str buf = takeWhile (\<lambda>c. c \<noteq> NUL) buf"

text \<open>
  \<^verbatim>\<open>FILE_NAME_REGEX = "^[a-zA-Z0-9.]{1,255}$"\<close>, matched with \<^verbatim>\<open>regexec\<close> in the C locale.
\<close>

definition name_char :: "char \<Rightarrow> bool" where
  "name_char c =
     (let n = (of_char c :: nat)
      in (97 \<le> n \<and> n \<le> 122) \<or> (65 \<le> n \<and> n \<le> 90) \<or> (48 \<le> n \<and> n \<le> 57) \<or> n = 46)"

definition regex_match :: "string \<Rightarrow> bool" where
  "regex_match name = (1 \<le> length name \<and> length name \<le> 255 \<and> list_all name_char name)"

text \<open>
  \<^verbatim>\<open>unsigned long file_size = (int) buf.st_size;\<close>: the size is cut to 32 bits, read as a
  signed number and converted to a 64-bit unsigned one.
\<close>

definition size_cast :: "nat \<Rightarrow> nat" where
  "size_cast st_size =
     (let m = st_size mod 2 ^ 32 in if m < 2 ^ 31 then m else m + (2 ^ 64 - 2 ^ 32))"

text \<open>\<^verbatim>\<open>long copy_size = ...\<close> from an \<^verbatim>\<open>unsigned long\<close>.\<close>

definition long_of_ulong :: "nat \<Rightarrow> int" where
  "long_of_ulong n = (let m = n mod 2 ^ 64 in if m < 2 ^ 63 then int m else int m - 2 ^ 64)"

text \<open>
  \<^verbatim>\<open>fread(buffer, BLOCK_SIZE, 1, input_file)\<close> after \<^verbatim>\<open>fseek(input_file, offset, SEEK_SET)\<close>:
  the bytes stored into the buffer, the returned item count and the end-of-file flag. A
  read that reaches the unreadable byte stores nothing and returns 0 without end of file.
\<close>

definition read_fails :: "host_file \<Rightarrow> nat \<Rightarrow> bool" where
  "read_fails f offset =
     (case read_error_at f of
        None \<Rightarrow> False
      | Some e \<Rightarrow> offset \<le> e \<and> e < offset + BLOCK_SIZE \<and> e < length (contents f))"

definition fread_block :: "host_file \<Rightarrow> nat \<Rightarrow> byte list \<times> nat \<times> bool" where
  "fread_block f offset =
     (if read_fails f offset then ([], 0, False)
      else (let chunk = take BLOCK_SIZE (drop offset (contents f))
            in (chunk, if length chunk = BLOCK_SIZE then 1 else 0, length chunk < BLOCK_SIZE)))"

text \<open>
  \<^verbatim>\<open>memcpy(dst, src, n)\<close> into a character array field: writing past the declared length of
  the field is a fault that carries the first index outside it.
\<close>

definition memcpy_field :: "char list \<Rightarrow> char list \<Rightarrow> nat \<Rightarrow> fault + char list" where
  "memcpy_field dst src n =
     (if length dst < n then Inl (FileNameOverflow (length dst))
      else Inr (take n src @ drop n dst))"

subsection \<open>Block pool\<close>

function disk_availability_loop :: "int list \<Rightarrow> nat \<Rightarrow> nat \<Rightarrow> nat" where
  "disk_availability_loop us counter free_size =
     (if counter < TOTAL_BLOCKS
      then disk_availability_loop us (counter + 1)
             (if us ! counter = 0 then free_size + BLOCK_SIZE else free_size)
      else free_size)"
  by pat_completeness auto
termination
  by (relation "measure (\<lambda>(us, counter, free_size). TOTAL_BLOCKS - counter)") auto

definition disk_availability :: "fs \<Rightarrow> nat" where
  "disk_availability s = disk_availability_loop (used_space s) 0 0"

function get_free_block_loop :: "int list \<Rightarrow> nat \<Rightarrow> int" where
  "get_free_block_loop us counter =
     (if counter < TOTAL_BLOCKS
      then (if us ! counter = UNSET then int counter else get_free_block_loop us (counter + 1))
      else - 1)"
  by pat_completeness auto
termination
  by (relation "measure (\<lambda>(us, counter). TOTAL_BLOCKS - counter)") auto

definition get_free_block :: "fs \<Rightarrow> int" where
  "get_free_block s = get_free_block_loop (used_space s) 0"

subsection \<open>Directory\<close>

function get_new_file_entry_loop :: "Inode list \<Rightarrow> nat \<Rightarrow> int" where
  "get_new_file_entry_loop files counter =
     (if counter < DIRECTORY_SIZE
      then (if used (files ! counter) = 0 then int counter
            else get_new_file_entry_loop files (counter + 1))
      else - 1)"
  by pat_completeness auto
termination
  by (relation "measure (\<lambda>(files, counter). DIRECTORY_SIZE - counter)") auto

definition get_new_file_entry :: "fs \<Rightarrow> int" where
  "get_new_file_entry s = get_new_file_entry_loop (directory s) 0"

subsection \<open>put\<close>

text \<open>
  The copy loop of \<^verbatim>\<open>put\<close>. It returns \<open>False\<close> with the state reached when \<^verbatim>\<open>fread\<close>
  reports an error (the \<^verbatim>\<open>return\<close> inside the loop), and \<open>True\<close> with the final
  \<^verbatim>\<open>counter\<close> when the loop ends.
\<close>

function put_copy ::
  "host_file \<Rightarrow> nat \<Rightarrow> int \<Rightarrow> nat \<Rightarrow> nat \<Rightarrow> fs \<Rightarrow> fault + (bool \<times> nat \<times> fs)" where
  "put_copy f idx copy_size offset counter s =
     (if 0 < copy_size then
        (let new_block = get_free_block s in
         if new_block < 0 \<or> int TOTAL_BLOCKS \<le> new_block
         then Inl (BlockIndexOutOfRange new_block)
         else
           (case fread_block f offset of
              (chunk, items, eof) \<Rightarrow>
                (let b = nat new_block;
                     s1 = s\<lparr>file_data :=
                            (file_data s)[b := chunk @ drop (length chunk) (file_data s ! b)]\<rparr>
                 in if items = 0 \<and> \<not> eof then Inr (False, counter, s1)
                    else if MAX_FILE_BLOCKS \<le> counter then Inl (BlocksIndexOutOfRange counter)
                    else put_copy f idx (copy_size - int BLOCK_SIZE) (offset + BLOCK_SIZE)
                           (counter + 1)
                           (s1\<lparr>directory :=
                                 (directory s1)[idx := (directory s1 ! idx)
                                    \<lparr>blocks := (blocks (directory s1 ! idx))[counter := new_block]\<rparr>],
                               used_space := (used_space s1)[b := SET]\<rparr>))))
      else Inr (True, counter, s))"
  by pat_completeness auto
termination
  by (relation "measure (\<lambda>(f, idx, copy_size, offset, counter, s). nat copy_size)")
     (auto simp: BLOCK_SIZE_def)

text \<open>\<^verbatim>\<open>while (counter < MAX_FILE_BLOCKS) blocks[counter++] = NEGATIVE;\<close>\<close>

function pad_blocks :: "nat \<Rightarrow> int list \<Rightarrow> int list" where
  "pad_blocks counter bl =
     (if counter < MAX_FILE_BLOCKS then pad_blocks (counter + 1) (bl[counter := NEGATIVE])
      else bl)"
  by pat_completeness auto
termination
  by (relation "measure (\<lambda>(counter, bl). MAX_FILE_BLOCKS - counter)") auto

text \<open>
  \<^verbatim>\<open>put(args)\<close> with \<^verbatim>\<open>args[1]\<close> as \<open>arg1\<close> (\<open>None\<close> for \<^verbatim>\<open>NULL\<close>), the host file system as
  the lookup \<open>host\<close> of \<^verbatim>\<open>stat\<close> and \<^verbatim>\<open>fopen\<close>, and \<open>now\<close> the value of \<^verbatim>\<open>time(NULL)\<close>.
\<close>

definition put ::
  "fs \<Rightarrow> (string \<Rightarrow> host_file option) \<Rightarrow> int \<Rightarrow> string option \<Rightarrow> fault + (put_status \<times> fs)" where
  "put s host now arg1 =
     (case arg1 of
        None \<Rightarrow> Inr (NameMissing, s)
      | Some name \<Rightarrow>
          if MAX_FILE_NAME < length name then Inr (NameTooLong, s)
          else if \<not> regex_match name then Inr (InvalidName, s)
          else
            (case host name of
               None \<Rightarrow> Inr (HostFileNotFound, s)
             | Some f \<Rightarrow>
                 (let file_size = size_cast (length (contents f)) in
                  if MAX_FILE_SIZE < file_size then Inr (FileTooLarge, s)
                  else if disk_availability s < file_size then Inr (NotEnoughSpace, s)
                  else
                    (let file_entry_index = get_new_file_entry s in
                     if file_entry_index = - 1 then Inr (DirectoryFull, s)
                     else
                       (case put_copy f (nat file_entry_index) (long_of_ulong file_size) 0 0 s of
                          Inl e \<Rightarrow> Inl e
                        | Inr (ok, counter, s1) \<Rightarrow>
                            if \<not> ok then Inr (ReadError, s1)
                            else
                              (let idx = nat file_entry_index;
                                   e = directory s1 ! idx;
                                   bl = pad_blocks counter (blocks e)
                               in case memcpy_field (file_name e) (name @ [NUL]) (length name + 1) of
                                    Inl err \<Rightarrow> Inl err
                                  | Inr nm \<Rightarrow>
                                      Inr (PutOk,
                                           s1\<lparr>directory := (directory s1)[idx :=
                                                e\<lparr>blocks := bl, file_name := nm,
                                                  size_bytes := file_size, time_created := now,
                                                  used := SET\<rparr>]\<rparr>)))))))"

subsection \<open>get\<close>

text \<open>The lookup loop of \<^verbatim>\<open>get\<close>: it has no \<^verbatim>\<open>break\<close>, every slot is compared.\<close>

function get_lookup :: "Inode list \<Rightarrow> string \<Rightarrow> nat \<Rightarrow> int \<Rightarrow> int" where
  "get_lookup files name counter index =
     (if counter < DIRECTORY_SIZE
      then get_lookup files name (counter + 1)
             (if c_str (file_name (files ! counter)) = name then int counter else index)
      else index)"
  by pat_completeness auto
termination
  by (relation "measure (\<lambda>(files, name, counter, index). DIRECTORY_SIZE - counter)") auto

text \<open>
  The copy loop of \<^verbatim>\<open>get\<close>; \<open>out\<close> is what has been written to the output file. Every
  write but the last is a whole block, so the \<^verbatim>\<open>fseek\<close> to \<^verbatim>\<open>offset\<close> is the end of what
  has been written.
\<close>

function get_copy :: "fs \<Rightarrow> nat \<Rightarrow> int \<Rightarrow> nat \<Rightarrow> byte list \<Rightarrow> fault + byte list" where
  "get_copy s index copy_size counter out =
     (if 0 < copy_size then
        (let num_bytes = (if copy_size < int BLOCK_SIZE then nat copy_size else BLOCK_SIZE) in
         if MAX_FILE_BLOCKS \<le> counter then Inl (BlocksIndexOutOfRange counter)
         else
           (let block_index = blocks (directory s ! index) ! counter in
            if block_index < 0 \<or> int TOTAL_BLOCKS \<le> block_index
            then Inl (BlockIndexOutOfRange block_index)
            else get_copy s index (copy_size - int BLOCK_SIZE) (counter + 1)
                   (out @ take num_bytes (file_data s ! nat block_index))))
      else Inr out)"
  by pat_completeness auto
termination
  by (relation "measure (\<lambda>(s, index, copy_size, counter, out). nat copy_size)")
     (auto simp: BLOCK_SIZE_def)

text \<open>
  \<^verbatim>\<open>fopen(copy_name, "w")\<close>: the host decides which names it opens for writing, and it
  opens no file of the empty name. The result is whether the stream is not \<^verbatim>\<open>NULL\<close>.
\<close>

definition fopen_w :: "(string \<Rightarrow> bool) \<Rightarrow> string \<Rightarrow> bool" where
  "fopen_w writable copy_name = (copy_name \<noteq> [] \<and> writable copy_name)"

text \<open>
  \<^verbatim>\<open>get(args)\<close> with \<^verbatim>\<open>args[1]\<close> and \<^verbatim>\<open>args[2]\<close>; the result is the name and the bytes of the
  file written to the host file system. The state is only read. The stream returned by
  \<^verbatim>\<open>fopen\<close> is not tested: a \<^verbatim>\<open>NULL\<close> stream reaches \<^verbatim>\<open>fseek\<close> in the first round of the
  copy loop, or \<^verbatim>\<open>fclose\<close> when the file is empty.
\<close>

definition get ::
  "fs \<Rightarrow> (string \<Rightarrow> bool) \<Rightarrow> string option \<Rightarrow> string option \<Rightarrow> fault + get_result" where
  "get s writable arg1 arg2 =
     (case arg1 of
        None \<Rightarrow> Inr GetNameMissing
      | Some name \<Rightarrow>
          (let index = get_lookup (directory s) name 0 (- 1) in
           if index < 0 then Inr GetNotFound
           else
             (let copy_name = (case arg2 of None \<Rightarrow> name | Some other \<Rightarrow> other) in
              if \<not> fopen_w writable copy_name then Inl NullPointer
              else
                (case get_copy s (nat index)
                        (long_of_ulong (size_bytes (directory s ! nat index))) 0 [] of
                   Inl e \<Rightarrow> Inl e
                 | Inr out \<Rightarrow> Inr (GetOk copy_name out)))))"

subsection \<open>delete\<close>

function delete_lookup :: "Inode list \<Rightarrow> string \<Rightarrow> nat \<Rightarrow> int" where
  "delete_lookup files name counter =
     (if counter < DIRECTORY_SIZE
      then (if c_str (file_name (files ! counter)) = name then int counter
            else delete_lookup files name (counter + 1))
      else - 1)"
  by pat_completeness auto
termination
  by (relation "measure (\<lambda>(files, name, counter). DIRECTORY_SIZE - counter)") auto

text \<open>
  The loop of \<^verbatim>\<open>delete\<close> that clears the blocks of entry \<open>index\<close>. Reading
  \<^verbatim>\<open>blocks[++counter]\<close> at \<^verbatim>\<open>MAX_FILE_BLOCKS\<close> or beyond is a fault.
\<close>

function delete_loop :: "nat \<Rightarrow> nat \<Rightarrow> int \<Rightarrow> fs \<Rightarrow> fault + fs" where
  "delete_loop index counter block_num s =
     (if - 1 < block_num then
        (if int TOTAL_BLOCKS \<le> block_num then Inl (BlockIndexOutOfRange block_num)
         else
           (let b = nat block_num;
                s1 = s\<lparr>file_data := (file_data s)[b := (file_data s ! b)[0 := 0]],
                       used_space := (used_space s)[b := UNSET],
                       directory := (directory s)[index := (directory s ! index)
                          \<lparr>blocks := (blocks (directory s ! index))[counter := UNSET]\<rparr>]\<rparr>
            in if MAX_FILE_BLOCKS \<le> counter + 1 then Inl (BlocksIndexOutOfRange (counter + 1))
               else delete_loop index (counter + 1)
                      (blocks (directory s1 ! index) ! (counter + 1)) s1))
      else Inr s)"
  by pat_completeness auto
termination
  by (relation "measure (\<lambda>(index, counter, block_num, s). MAX_FILE_BLOCKS - counter)") auto

text \<open>\<^verbatim>\<open>delete(file_name)\<close>; \<open>None\<close> is the \<^verbatim>\<open>NULL\<close> that \<^verbatim>\<open>strcmp\<close> would dereference.\<close>

definition delete :: "fs \<Rightarrow> string option \<Rightarrow> fault + (delete_status \<times> fs)" where
  "delete s arg =
     (case arg of
        None \<Rightarrow> Inl NullPointer
      | Some name \<Rightarrow>
          (let index = delete_lookup (directory s) name 0 in
           if index < 0 then Inr (DeleteNotFound, s)
           else
             (case delete_loop (nat index) 0 (blocks (directory s ! nat index) ! 0) s of
                Inl e \<Rightarrow> Inl e
              | Inr s1 \<Rightarrow>
                  Inr (DeleteOk,
                       s1\<lparr>directory := (directory s1)[nat index := (directory s1 ! nat index)
                            \<lparr>size_bytes := 0, time_created := 0, used := UNSET,
                             file_name := (file_name (directory s1 ! nat index))[0 := NUL]\<rparr>]\<rparr>))))"

subsection \<open>The initial state and well-formed states\<close>

text \<open>The globals are zero-initialised.\<close>

definition inode_init :: Inode where
  "inode_init =
     \<lparr>used = 0, file_name = replicate FILE_NAME_FIELD NUL, size_bytes = 0, time_created = 0,
      blocks = replicate MAX_FILE_BLOCKS 0\<rparr>"

definition fs_init :: fs where
  "fs_init =
     \<lparr>directory = replicate DIRECTORY_SIZE inode_init,
      file_data = replicate TOTAL_BLOCKS (replicate BLOCK_SIZE 0),
      used_space = replicate TOTAL_BLOCKS 0\<rparr>"

text \<open>
  The arrays have their declared lengths, and every name field holds a terminated string.
\<close>

definition wf_inode :: "Inode \<Rightarrow> bool" where
  "wf_inode e =
     (length (file_name e) = FILE_NAME_FIELD \<and> NUL \<in> set (file_name e) \<and>
      length (blocks e) = MAX_FILE_BLOCKS)"

definition wf_fs :: "fs \<Rightarrow> bool" where
  "wf_fs s =
     (length (directory s) = DIRECTORY_SIZE \<and> list_all wf_inode (directory s) \<and>
      length (file_data s) = TOTAL_BLOCKS \<and>
      list_all (\<lambda>blk. length blk = BLOCK_SIZE) (file_data s) \<and>
      length (used_space s) = TOTAL_BLOCKS)"

subsection \<open>Closed forms of the loops, used in the proofs\<close>

text \<open>
  None of the following is code of the program; the lemmas below relate each of them to
  the loop it describes.
  \<^item> \<open>free_blocks\<close> lists the free blocks in the order in which \<^verbatim>\<open>get_free_block\<close> finds
    them, and \<open>blocks_needed\<close> counts the iterations of a copy loop.
  \<^item> \<open>readable\<close> says that no byte of a host file fails to read.
  \<^item> \<open>copy_step\<close> is the effect of one iteration of the copy loop of \<^verbatim>\<open>put\<close> on block
    \<open>b\<close>, \<open>copy_steps\<close> the effect of the iterations on a list of blocks, \<open>put_blocks\<close>
    the blocks that a \<^verbatim>\<open>put\<close> of the file allocates, and \<open>put_state\<close> the state that a
    successful \<^verbatim>\<open>put\<close> is proved to return.
  \<^item> \<open>owned_blocks\<close> is the part of a block list before the first entry that is not
    above \<open>-1\<close>, \<open>clear_data\<close> and \<open>clear_space\<close> are the effect of the loop of
    \<^verbatim>\<open>delete\<close> on \<^verbatim>\<open>file_data\<close> and \<^verbatim>\<open>used_space\<close>, and \<open>delete_state\<close> is the state
    that a successful \<^verbatim>\<open>delete\<close> is proved to return.
\<close>

definition free_blocks :: "int list \<Rightarrow> nat list" where
  "free_blocks us = filter (\<lambda>b. us ! b = 0) [0..<TOTAL_BLOCKS]"

definition blocks_needed :: "int \<Rightarrow> nat" where
  "blocks_needed copy_size = nat ((copy_size + 2047) div 2048)"

definition copy_step :: "host_file \<Rightarrow> nat \<Rightarrow> nat \<Rightarrow> nat \<Rightarrow> nat \<Rightarrow> fs \<Rightarrow> fs" where
  "copy_step f idx offset counter b s =
     (let chunk = take BLOCK_SIZE (drop offset (contents f))
      in s\<lparr>file_data := (file_data s)[b := chunk @ drop (length chunk) (file_data s ! b)],
           directory := (directory s)[idx := (directory s ! idx)
              \<lparr>blocks := (blocks (directory s ! idx))[counter := int b]\<rparr>],
           used_space := (used_space s)[b := SET]\<rparr>)"

fun copy_steps :: "host_file \<Rightarrow> nat \<Rightarrow> nat \<Rightarrow> nat \<Rightarrow> nat list \<Rightarrow> fs \<Rightarrow> fs" where
  "copy_steps f idx offset counter [] s = s"
| "copy_steps f idx offset counter (b # bs) s =
     copy_steps f idx (offset + BLOCK_SIZE) (counter + 1) bs (copy_step f idx offset counter b s)"

definition readable :: "host_file \<Rightarrow> bool" where
  "readable f = (case read_error_at f of None \<Rightarrow> True | Some e \<Rightarrow> length (contents f) \<le> e)"

definition put_state :: "fs \<Rightarrow> host_file \<Rightarrow> string \<Rightarrow> int \<Rightarrow> nat \<Rightarrow> fs" where
  "put_state s f name now idx =
     (let n = blocks_needed (int (length (contents f)));
          alloc = take n (free_blocks (used_space s));
          s1 = copy_steps f idx 0 0 alloc s;
          e = directory s1 ! idx
      in s1\<lparr>directory := (directory s1)[idx :=
            e\<lparr>blocks := map int alloc @ replicate (MAX_FILE_BLOCKS - n) NEGATIVE,
              file_name := name @ NUL # drop (length name + 1) (file_name e),
              size_bytes := length (contents f), time_created := now, used := SET\<rparr>]\<rparr>)"

definition put_blocks :: "fs \<Rightarrow> host_file \<Rightarrow> nat list" where
  "put_blocks s f = take (blocks_needed (int (length (contents f)))) (free_blocks (used_space s))"

fun clear_data :: "int list \<Rightarrow> byte list list \<Rightarrow> byte list list" where
  "clear_data [] fd = fd"
| "clear_data (b # bs) fd = clear_data bs (fd[nat b := (fd ! nat b)[0 := 0]])"

fun clear_space :: "int list \<Rightarrow> int list \<Rightarrow> int list" where
  "clear_space [] us = us"
| "clear_space (b # bs) us = clear_space bs (us[nat b := UNSET])"

definition owned_blocks :: "Inode \<Rightarrow> int list" where
  "owned_blocks e = takeWhile (\<lambda>b. - 1 < b) (blocks e)"

definition delete_state :: "fs \<Rightarrow> nat \<Rightarrow> fs" where
  "delete_state s index =
     (let e = directory s ! index; run = owned_blocks e
      in \<lparr>directory = (directory s)[index :=
             \<lparr>used = UNSET, file_name = (file_name e)[0 := NUL], size_bytes = 0,
              time_created = 0,
              blocks = replicate (length run) UNSET @ drop (length run) (blocks e)\<rparr>],
          file_data = clear_data run (file_data s),
          used_space = clear_space run (used_space s)\<rparr>)"

subsection \<open>Example inputs\<close>

text \<open>
  Host files: three bytes (\<open>file_abc\<close>, \<open>file_xyz\<close>), one whole block (\<open>file_block\<close>),
  the largest file (\<open>file_big\<close>, 48 blocks), no bytes (\<open>file_empty\<close>), and three blocks
  of which the third does not read (\<open>file_bad\<close>). \<open>name_255\<close> is a name of 255 letters.
  States: \<open>s_one\<close> and \<open>s_two\<close> after one and two \<^verbatim>\<open>put a\<close>; \<open>s_x\<close>, \<open>s_xa\<close>, \<open>s_a\<close>
  and \<open>s_aa\<close> after \<^verbatim>\<open>put x\<close>, \<^verbatim>\<open>put a\<close>, \<^verbatim>\<open>del x\<close> and \<^verbatim>\<open>put a\<close>; \<open>s_leak\<close> after the
  \<^verbatim>\<open>put\<close> of \<open>file_bad\<close>; \<open>s_full\<close> a full disk: thirteen files of 48 blocks
  (\<open>full_entry\<close>) and one of 16 blocks (\<open>last_entry\<close>).
\<close>

definition file_abc :: host_file where
  "file_abc = \<lparr>contents = [1, 2, 3], read_error_at = None\<rparr>"

definition file_block :: host_file where
  "file_block = \<lparr>contents = replicate 2048 7, read_error_at = None\<rparr>"

definition file_big :: host_file where
  "file_big = \<lparr>contents = replicate 98304 0, read_error_at = None\<rparr>"

definition name_255 :: string where
  "name_255 = replicate 255 (CHR ''a'')"

definition file_xyz :: host_file where
  "file_xyz = \<lparr>contents = [9, 8, 7], read_error_at = None\<rparr>"

definition s_one :: fs where
  "s_one = put_state fs_init file_abc ''a'' 0 0"

definition s_two :: fs where
  "s_two = put_state s_one file_xyz ''a'' 0 1"

definition file_empty :: host_file where
  "file_empty = \<lparr>contents = [], read_error_at = None\<rparr>"

definition file_one :: host_file where
  "file_one = \<lparr>contents = [5], read_error_at = None\<rparr>"

definition s_x :: fs where
  "s_x = put_state fs_init file_empty ''x'' 0 0"

definition s_xa :: fs where
  "s_xa = put_state s_x file_empty ''a'' 0 1"

definition s_a :: fs where
  "s_a = delete_state s_xa 0"

definition s_aa :: fs where
  "s_aa = put_state s_a file_abc ''a'' 0 0"

definition file_bad :: host_file where
  "file_bad = \<lparr>contents = replicate 6144 7, read_error_at = Some 4096\<rparr>"

definition s_leak :: fs where
  "s_leak = copy_steps file_bad 0 0 0 [0, 1] fs_init"

definition full_entry :: "nat \<Rightarrow> Inode" where
  "full_entry k =
     \<lparr>used = SET, file_name = replicate (Suc k) (CHR ''f'') @ replicate (254 - k) NUL,
      size_bytes = MAX_FILE_SIZE, time_created = 0,
      blocks = map int [MAX_FILE_BLOCKS * k..<MAX_FILE_BLOCKS * k + MAX_FILE_BLOCKS]\<rparr>"

definition last_entry :: Inode where
  "last_entry =
     \<lparr>used = SET, file_name = CHR ''g'' # replicate 254 NUL, size_bytes = 16 * BLOCK_SIZE,
      time_created = 0, blocks = map int [624..<640] @ replicate 32 NEGATIVE\<rparr>"

definition s_full :: fs where
  "s_full =
     \<lparr>directory = map full_entry [0..<13] @ last_entry # replicate 114 inode_init,
      file_data = replicate TOTAL_BLOCKS (replicate BLOCK_SIZE 0),
      used_space = replicate TOTAL_BLOCKS SET\<rparr>"

section \<open>Properties\<close>

lemma TOTAL_BLOCKS_eq: "TOTAL_BLOCKS = 640"
  by (simp add: TOTAL_BLOCKS_def FILE_SYSTEM_SIZE_def BLOCK_SIZE_def)

lemma MAX_FILE_BLOCKS_eq: "MAX_FILE_BLOCKS = 48"
  by (simp add: MAX_FILE_BLOCKS_def MAX_FILE_SIZE_def BLOCK_SIZE_def)

declare disk_availability_loop.simps [simp del] get_free_block_loop.simps [simp del]
  get_new_file_entry_loop.simps [simp del] put_copy.simps [simp del] pad_blocks.simps [simp del]
  get_lookup.simps [simp del] get_copy.simps [simp del] delete_lookup.simps [simp del]
  delete_loop.simps [simp del]

lemma disk_availability_loop_eq:
  "disk_availability_loop us counter free_size =
     free_size + BLOCK_SIZE * length (filter (\<lambda>b. us ! b = 0) [counter..<TOTAL_BLOCKS])"
proof (induction us counter free_size rule: disk_availability_loop.induct)
  case (1 us counter free_size)
  show ?case
  proof (cases "counter < TOTAL_BLOCKS")
    case True
    then have "[counter..<TOTAL_BLOCKS] = counter # [counter + 1..<TOTAL_BLOCKS]"
      by (simp add: upt_conv_Cons)
    with True "1.IH" show ?thesis
      by (subst disk_availability_loop.simps) simp
  next
    case False
    then show ?thesis
      by (subst disk_availability_loop.simps) simp
  qed
qed

lemma disk_availability_eq:
  "disk_availability s = BLOCK_SIZE * length (free_blocks (used_space s))"
  by (simp add: disk_availability_def free_blocks_def disk_availability_loop_eq)

lemma get_free_block_loop_eq:
  "get_free_block_loop us counter =
     (case filter (\<lambda>b. us ! b = 0) [counter..<TOTAL_BLOCKS] of [] \<Rightarrow> - 1 | b # _ \<Rightarrow> int b)"
proof (induction us counter rule: get_free_block_loop.induct)
  case (1 us counter)
  show ?case
  proof (cases "counter < TOTAL_BLOCKS")
    case True
    then have "[counter..<TOTAL_BLOCKS] = counter # [counter + 1..<TOTAL_BLOCKS]"
      by (simp add: upt_conv_Cons)
    with True "1.IH" show ?thesis
      by (subst get_free_block_loop.simps) (simp add: UNSET_def)
  next
    case False
    then show ?thesis
      by (subst get_free_block_loop.simps) simp
  qed
qed

lemma get_free_block_eq:
  "get_free_block s = (case free_blocks (used_space s) of [] \<Rightarrow> - 1 | b # _ \<Rightarrow> int b)"
  by (simp add: get_free_block_def free_blocks_def get_free_block_loop_eq)

lemma get_new_file_entry_loop_eq:
  "get_new_file_entry_loop files counter =
     (case filter (\<lambda>i. used (files ! i) = 0) [counter..<DIRECTORY_SIZE] of
        [] \<Rightarrow> - 1 | i # _ \<Rightarrow> int i)"
proof (induction files counter rule: get_new_file_entry_loop.induct)
  case (1 files counter)
  show ?case
  proof (cases "counter < DIRECTORY_SIZE")
    case True
    then have "[counter..<DIRECTORY_SIZE] = counter # [counter + 1..<DIRECTORY_SIZE]"
      by (simp add: upt_conv_Cons)
    with True "1.IH" show ?thesis
      by (subst get_new_file_entry_loop.simps) simp
  next
    case False
    then show ?thesis
      by (subst get_new_file_entry_loop.simps) simp
  qed
qed

lemma delete_lookup_eq:
  "delete_lookup files name counter =
     (case filter (\<lambda>i. c_str (file_name (files ! i)) = name) [counter..<DIRECTORY_SIZE] of
        [] \<Rightarrow> - 1 | i # _ \<Rightarrow> int i)"
proof (induction files name counter rule: delete_lookup.induct)
  case (1 files name counter)
  show ?case
  proof (cases "counter < DIRECTORY_SIZE")
    case True
    then have "[counter..<DIRECTORY_SIZE] = counter # [counter + 1..<DIRECTORY_SIZE]"
      by (simp add: upt_conv_Cons)
    with True "1.IH" show ?thesis
      by (subst delete_lookup.simps) simp
  next
    case False
    then show ?thesis
      by (subst delete_lookup.simps) simp
  qed
qed

lemma get_lookup_eq:
  "get_lookup files name counter index =
     (case rev (filter (\<lambda>i. c_str (file_name (files ! i)) = name) [counter..<DIRECTORY_SIZE]) of
        [] \<Rightarrow> index | i # _ \<Rightarrow> int i)"
proof (induction files name counter index rule: get_lookup.induct)
  case (1 files name counter index)
  show ?case
  proof (cases "counter < DIRECTORY_SIZE")
    case True
    then have "[counter..<DIRECTORY_SIZE] = counter # [counter + 1..<DIRECTORY_SIZE]"
      by (simp add: upt_conv_Cons)
    with True "1.IH" show ?thesis
      by (subst get_lookup.simps) (simp split: list.splits)
  next
    case False
    then show ?thesis
      by (subst get_lookup.simps) simp
  qed
qed

lemma pad_blocks_eq:
  "length bl = MAX_FILE_BLOCKS \<Longrightarrow> counter \<le> MAX_FILE_BLOCKS \<Longrightarrow>
   pad_blocks counter bl = take counter bl @ replicate (MAX_FILE_BLOCKS - counter) NEGATIVE"
proof (induction counter bl rule: pad_blocks.induct)
  case (1 counter bl)
  show ?case
  proof (cases "counter < MAX_FILE_BLOCKS")
    case True
    have "take (counter + 1) (bl[counter := NEGATIVE]) = take counter bl @ [NEGATIVE]"
      using True "1.prems" by (simp add: take_Suc_conv_app_nth)
    moreover have "replicate (MAX_FILE_BLOCKS - counter) NEGATIVE =
        NEGATIVE # replicate (MAX_FILE_BLOCKS - (counter + 1)) NEGATIVE"
      using True by (simp add: Suc_diff_Suc flip: replicate_Suc)
    ultimately show ?thesis
      using True "1.IH" "1.prems" by (subst pad_blocks.simps) simp
  next
    case False
    then show ?thesis
      using "1.prems" by (subst pad_blocks.simps) simp
  qed
qed

lemma readable_read_fails: "readable f \<Longrightarrow> \<not> read_fails f offset"
  by (auto simp: readable_def read_fails_def split: option.splits)

lemma filter_drop_head:
  "distinct xs \<Longrightarrow> filter P xs = b # rest \<Longrightarrow> filter (\<lambda>x. P x \<and> x \<noteq> b) xs = rest"
proof (induction xs)
  case Nil
  then show ?case by simp
next
  case (Cons x xs)
  show ?case
  proof (cases "P x")
    case True
    with Cons.prems have eq: "b = x" "rest = filter P xs" by simp_all
    have "filter (\<lambda>y. P y \<and> y \<noteq> x) xs = filter P xs"
      using Cons.prems(1) by (intro filter_cong) auto
    with True eq show ?thesis by simp
  next
    case False
    with Cons show ?thesis by simp
  qed
qed

lemma free_blocks_bound: "b \<in> set (free_blocks us) \<Longrightarrow> b < TOTAL_BLOCKS"
  by (simp add: free_blocks_def)

lemma free_blocks_free: "b \<in> set (free_blocks us) \<Longrightarrow> us ! b = 0"
  by (simp add: free_blocks_def)

lemma free_blocks_distinct: "distinct (free_blocks us)"
  by (simp add: free_blocks_def)

lemma free_blocks_alloc:
  assumes "free_blocks us = b # rest" "length us = TOTAL_BLOCKS"
  shows "free_blocks (us[b := SET]) = rest"
proof -
  have "filter (\<lambda>x. us[b := SET] ! x = 0) [0..<TOTAL_BLOCKS] =
        filter (\<lambda>x. us ! x = 0 \<and> x \<noteq> b) [0..<TOTAL_BLOCKS]"
    using assms(2) free_blocks_bound [of b us] assms(1)
    by (intro filter_cong) (auto simp: nth_list_update SET_def)
  also have "\<dots> = rest"
    using assms(1) by (intro filter_drop_head) (simp_all add: free_blocks_def)
  finally show ?thesis by (simp add: free_blocks_def)
qed

lemma blocks_needed_0: "copy_size \<le> 0 \<Longrightarrow> blocks_needed copy_size = 0"
  by (simp add: blocks_needed_def)

lemma blocks_needed_Suc:
  "0 < copy_size \<Longrightarrow> blocks_needed copy_size = Suc (blocks_needed (copy_size - int BLOCK_SIZE))"
  by (simp add: blocks_needed_def BLOCK_SIZE_def)

lemma fread_block_ok:
  assumes "readable f"
  shows "\<exists>items eof.
      fread_block f offset = (take BLOCK_SIZE (drop offset (contents f)), items, eof) \<and>
      (items = 0 \<and> \<not> eof) = False"
proof (cases "length (take BLOCK_SIZE (drop offset (contents f))) = BLOCK_SIZE")
  case True
  with readable_read_fails [OF assms] show ?thesis
    by (auto simp add: fread_block_def Let_def simp del: length_take)
next
  case False
  moreover have "length (take BLOCK_SIZE (drop offset (contents f))) \<le> BLOCK_SIZE"
    by simp
  ultimately have "length (take BLOCK_SIZE (drop offset (contents f))) < BLOCK_SIZE"
    by linarith
  with readable_read_fails [OF assms] False show ?thesis
    by (auto simp add: fread_block_def Let_def simp del: length_take)
qed

lemma put_copy_ok:
  assumes "readable f" "length (used_space s) = TOTAL_BLOCKS"
    "blocks_needed copy_size = n"
    "n \<le> length (free_blocks (used_space s))" "counter + n \<le> MAX_FILE_BLOCKS"
  shows "put_copy f idx copy_size offset counter s =
           Inr (True, counter + n,
                copy_steps f idx offset counter (take n (free_blocks (used_space s))) s)"
  using assms
proof (induction n arbitrary: copy_size offset counter s)
  case 0
  then have "copy_size \<le> 0"
    by (simp add: blocks_needed_def)
  then show ?case
    by (subst put_copy.simps) simp
next
  case (Suc n)
  have pos: "0 < copy_size"
    using Suc.prems(3) blocks_needed_0 [of copy_size] by (cases "0 < copy_size") auto
  obtain b rest where fb: "free_blocks (used_space s) = b # rest"
    using Suc.prems(4) by (cases "free_blocks (used_space s)") auto
  have b: "b < TOTAL_BLOCKS"
    using free_blocks_bound [of b "used_space s"] fb by simp
  have gfb: "get_free_block s = int b"
    by (simp add: get_free_block_eq fb)
  have cnt: "counter < MAX_FILE_BLOCKS"
    using Suc.prems(5) by simp
  let ?s2 = "copy_step f idx offset counter b s"
  have us2: "used_space ?s2 = (used_space s)[b := SET]"
    by (simp add: copy_step_def Let_def)
  have fb2: "free_blocks (used_space ?s2) = rest"
    using free_blocks_alloc [OF fb Suc.prems(2)] us2 by simp
  have n: "blocks_needed (copy_size - int BLOCK_SIZE) = n"
    using blocks_needed_Suc [OF pos] Suc.prems(3) by simp
  have IH: "put_copy f idx (copy_size - int BLOCK_SIZE) (offset + BLOCK_SIZE) (counter + 1) ?s2 =
      Inr (True, counter + 1 + n,
           copy_steps f idx (offset + BLOCK_SIZE) (counter + 1) (take n rest) ?s2)"
    using Suc.IH [where copy_size = "copy_size - int BLOCK_SIZE" and offset = "offset + BLOCK_SIZE"
        and counter = "counter + 1" and s = ?s2]
      Suc.prems fb2 n us2 fb by simp
  obtain items eof where
    fr: "fread_block f offset = (take BLOCK_SIZE (drop offset (contents f)), items, eof)"
    and ok: "(items = 0 \<and> \<not> eof) = False"
    using fread_block_ok [OF Suc.prems(1), of offset] by blast
  have step: "put_copy f idx copy_size offset counter s =
      put_copy f idx (copy_size - int BLOCK_SIZE) (offset + BLOCK_SIZE) (counter + 1) ?s2"
    using pos b cnt gfb
    by (subst put_copy.simps) (simp add: fr ok Let_def copy_step_def del: length_take)
  show ?case
    using IH by (simp add: step fb)
qed

text \<open>A read error inside the part of the file still to be copied stops the loop.\<close>

lemma put_copy_error:
  assumes "read_error_at f = Some e" "e < length (contents f)" "offset \<le> e"
    "int e < int offset + copy_size"
  shows "put_copy f idx copy_size offset counter s \<noteq> Inr (True, c', s')"
  using assms
proof (induction f idx copy_size offset counter s rule: put_copy.induct)
  case (1 f idx copy_size offset counter s)
  have pos: "0 < copy_size"
    using "1.prems" by linarith
  show ?case
  proof (cases "read_fails f offset")
    case True
    then have "fread_block f offset = ([], 0, False)"
      by (simp add: fread_block_def)
    then show ?thesis
      using pos by (subst put_copy.simps) (simp add: Let_def)
  next
    case False
    then have far: "offset + BLOCK_SIZE \<le> e"
      using "1.prems" by (simp add: read_fails_def)
    obtain chunk items eof where fr: "fread_block f offset = (chunk, items, eof)"
      by (cases "fread_block f offset") auto
    have rec: "put_copy f idx (copy_size - int BLOCK_SIZE) (offset + BLOCK_SIZE) (counter + 1) s2
        \<noteq> Inr (True, c', s')"
      if "\<not> (get_free_block s < 0 \<or> int TOTAL_BLOCKS \<le> get_free_block s)"
        "\<not> (items = 0 \<and> \<not> eof)" "\<not> MAX_FILE_BLOCKS \<le> counter"
        "s2 = (s\<lparr>file_data := (file_data s)[nat (get_free_block s) :=
                  chunk @ drop (length chunk) (file_data s ! nat (get_free_block s))]\<rparr>)
              \<lparr>directory := (directory s)[idx := (directory s ! idx)
                  \<lparr>blocks := (blocks (directory s ! idx))[counter := get_free_block s]\<rparr>],
               used_space := (used_space s)[nat (get_free_block s) := SET]\<rparr>" for s2
      using "1.IH" [OF pos refl that(1) fr [symmetric] refl refl refl that(2,3)] "1.prems" far that(4)
      by simp
    show ?thesis
      using pos rec
      by (subst put_copy.simps) (simp add: Let_def fr)
  qed
qed

lemma list_all_update:
  "list_all P xs \<Longrightarrow> P x \<Longrightarrow> list_all P (xs[i := x])"
  using set_update_subset_insert [of xs i x] by (auto simp: list_all_iff)

lemma list_all_nth: "list_all P xs \<Longrightarrow> i < length xs \<Longrightarrow> P (xs ! i)"
  by (simp add: list_all_length)

lemma wf_copy_step:
  assumes "wf_fs s" "b < TOTAL_BLOCKS" "idx < DIRECTORY_SIZE"
  shows "wf_fs (copy_step f idx offset counter b s)"
proof -
  let ?chunk = "take BLOCK_SIZE (drop offset (contents f))"
  have len: "length (file_data s ! b) = BLOCK_SIZE"
    using assms(1,2) by (simp add: wf_fs_def list_all_length)
  have "length (?chunk @ drop (length ?chunk) (file_data s ! b)) = BLOCK_SIZE"
    using len by (simp del: length_take add: length_take [of BLOCK_SIZE])
  moreover have "wf_inode ((directory s ! idx)\<lparr>blocks := (blocks (directory s ! idx))[counter := int b]\<rparr>)"
    using assms(1,3) list_all_nth [of wf_inode "directory s" idx]
    by (simp add: wf_fs_def wf_inode_def)
  ultimately show ?thesis
    using assms(1) unfolding wf_fs_def copy_step_def Let_def
    by (simp add: list_all_update del: length_take length_drop)
qed

lemma wf_copy_steps:
  "wf_fs s \<Longrightarrow> \<forall>b \<in> set bs. b < TOTAL_BLOCKS \<Longrightarrow> idx < DIRECTORY_SIZE \<Longrightarrow>
   wf_fs (copy_steps f idx offset counter bs s)"
  by (induction bs arbitrary: s offset counter) (simp_all add: wf_copy_step)

lemma used_space_copy_steps_length [simp]:
  "length (used_space (copy_steps f idx offset counter bs s)) = length (used_space s)"
  by (induction bs arbitrary: s offset counter) (simp_all add: copy_step_def Let_def)

lemma file_data_copy_steps_length [simp]:
  "length (file_data (copy_steps f idx offset counter bs s)) = length (file_data s)"
  by (induction bs arbitrary: s offset counter) (simp_all add: copy_step_def Let_def)

lemma directory_copy_steps_length [simp]:
  "length (directory (copy_steps f idx offset counter bs s)) = length (directory s)"
  by (induction bs arbitrary: s offset counter) (simp_all add: copy_step_def Let_def)

lemma used_space_copy_steps_other:
  "b \<notin> set bs \<Longrightarrow> used_space (copy_steps f idx offset counter bs s) ! b = used_space s ! b"
  by (induction bs arbitrary: s offset counter) (auto simp: copy_step_def Let_def)

lemma used_space_copy_steps_set:
  "b \<in> set bs \<Longrightarrow> b < length (used_space s) \<Longrightarrow>
   used_space (copy_steps f idx offset counter bs s) ! b = SET"
proof (induction bs arbitrary: s offset counter)
  case Nil
  then show ?case by simp
next
  case (Cons a bs)
  show ?case
  proof (cases "b \<in> set bs")
    case True
    with Cons show ?thesis by (simp add: copy_step_def Let_def)
  next
    case False
    with Cons.prems have "a = b" by simp
    with False Cons.prems show ?thesis
      by (simp add: used_space_copy_steps_other copy_step_def Let_def)
  qed
qed

lemma file_data_copy_steps_other:
  "b \<notin> set bs \<Longrightarrow> file_data (copy_steps f idx offset counter bs s) ! b = file_data s ! b"
  by (induction bs arbitrary: s offset counter) (auto simp: copy_step_def Let_def)

lemma file_data_copy_steps_nth:
  assumes "k < length bs" "distinct bs" "\<forall>b \<in> set bs. b < length (file_data s)"
  shows "file_data (copy_steps f idx offset counter bs s) ! (bs ! k) =
         take BLOCK_SIZE (drop (offset + BLOCK_SIZE * k) (contents f)) @
         drop (length (take BLOCK_SIZE (drop (offset + BLOCK_SIZE * k) (contents f))))
           (file_data s ! (bs ! k))"
  using assms
proof (induction bs arbitrary: s offset counter k)
  case Nil
  then show ?case by simp
next
  case (Cons a bs)
  show ?case
  proof (cases k)
    case 0
    with Cons.prems show ?thesis
      by (simp add: file_data_copy_steps_other copy_step_def Let_def del: length_take)
  next
    case (Suc j)
    with Cons.prems have j: "j < length bs" and ne: "bs ! j \<noteq> a"
      by auto
    have "file_data (copy_step f idx offset counter a s) ! (bs ! j) = file_data s ! (bs ! j)"
      using ne by (simp add: copy_step_def Let_def)
    moreover have "offset + BLOCK_SIZE + BLOCK_SIZE * j = offset + BLOCK_SIZE * Suc j"
      by simp
    ultimately show ?thesis
      using Cons.IH [of j "copy_step f idx offset counter a s" "offset + BLOCK_SIZE" "counter + 1"]
        Cons.prems j Suc
      by (simp add: copy_step_def Let_def add.assoc del: length_take)
  qed
qed

lemma directory_copy_steps:
  assumes "idx < length (directory s)"
    "counter + length bs \<le> length (blocks (directory s ! idx))"
  shows "directory (copy_steps f idx offset counter bs s) =
         (directory s)[idx := (directory s ! idx)
            \<lparr>blocks := take counter (blocks (directory s ! idx)) @ map int bs @
                       drop (counter + length bs) (blocks (directory s ! idx))\<rparr>]"
  using assms
proof (induction bs arbitrary: s offset counter)
  case Nil
  then show ?case by (simp add: list_update_same_conv)
next
  case (Cons a bs)
  let ?B = "blocks (directory s ! idx)"
  let ?s1 = "copy_step f idx offset counter a s"
  have d1: "directory ?s1 = (directory s)[idx := (directory s ! idx)\<lparr>blocks := ?B[counter := int a]\<rparr>]"
    by (simp add: copy_step_def Let_def)
  have c: "counter < length ?B"
    using Cons.prems by simp
  have t: "take (counter + 1) (?B[counter := int a]) = take counter ?B @ [int a]"
    using c by (simp add: take_Suc_conv_app_nth)
  have d: "drop (counter + 1 + length bs) (?B[counter := int a]) = drop (counter + 1 + length bs) ?B"
    by simp
  have "directory (copy_steps f idx (offset + BLOCK_SIZE) (counter + 1) bs ?s1) =
        (directory ?s1)[idx := (directory ?s1 ! idx)
            \<lparr>blocks := take (counter + 1) (blocks (directory ?s1 ! idx)) @ map int bs @
                       drop (counter + 1 + length bs) (blocks (directory ?s1 ! idx))\<rparr>]"
    using Cons.prems by (intro Cons.IH) (simp_all add: d1)
  then show ?case
    using Cons.prems(1) t d by (simp add: d1)
qed

lemma filter_upt_Cons:
  "filter P [m..<n] = i # rest \<Longrightarrow> m \<le> i \<and> i < n \<and> P i \<and> (\<forall>j. m \<le> j \<and> j < i \<longrightarrow> \<not> P j)"
proof (induction "n - m" arbitrary: m)
  case 0
  then show ?case by simp
next
  case (Suc d)
  then have mn: "m < n" by simp
  then have upt: "[m..<n] = m # [Suc m..<n]"
    by (simp add: upt_conv_Cons)
  show ?case
  proof (cases "P m")
    case True
    with Suc.prems upt mn show ?thesis by auto
  next
    case False
    with Suc.prems upt have "filter P [Suc m..<n] = i # rest" by simp
    moreover have "d = n - Suc m" using Suc.hyps(2) by simp
    ultimately have IH: "Suc m \<le> i \<and> i < n \<and> P i \<and> (\<forall>j. Suc m \<le> j \<and> j < i \<longrightarrow> \<not> P j)"
      using Suc.hyps(1) by blast
    show ?thesis
    proof (intro conjI allI impI)
      fix j assume "m \<le> j \<and> j < i"
      then show "\<not> P j"
        using IH False by (cases "j = m") auto
    qed (use IH in auto)
  qed
qed

lemma filter_upt_Nil: "filter P [m..<n] = [] \<Longrightarrow> m \<le> j \<Longrightarrow> j < n \<Longrightarrow> \<not> P j"
  by (simp add: filter_empty_conv)

lemma get_new_file_entry_cases:
  obtains (full) "get_new_file_entry s = - 1" "\<forall>j < DIRECTORY_SIZE. used (directory s ! j) \<noteq> 0"
  | (slot) i where "get_new_file_entry s = int i" "i < DIRECTORY_SIZE"
      "used (directory s ! i) = 0" "\<forall>j < i. used (directory s ! j) \<noteq> 0"
proof (cases "filter (\<lambda>i. used (directory s ! i) = 0) [0..<DIRECTORY_SIZE]")
  case Nil
  then have "get_new_file_entry s = - 1"
    by (simp add: get_new_file_entry_def get_new_file_entry_loop_eq)
  moreover have "\<forall>j < DIRECTORY_SIZE. used (directory s ! j) \<noteq> 0"
    using filter_upt_Nil [OF Nil] by simp
  ultimately show ?thesis by (rule full)
next
  case (Cons i rest)
  then have "get_new_file_entry s = int i"
    by (simp add: get_new_file_entry_def get_new_file_entry_loop_eq)
  moreover have "i < DIRECTORY_SIZE" "used (directory s ! i) = 0"
    "\<forall>j < i. used (directory s ! j) \<noteq> 0"
    using filter_upt_Cons [OF Cons] by simp_all
  ultimately show ?thesis by (rule slot)
qed

lemma size_cast_small: "n \<le> MAX_FILE_SIZE \<Longrightarrow> size_cast n = n"
  by (simp add: size_cast_def MAX_FILE_SIZE_def Let_def)

lemma long_of_ulong_small: "n \<le> MAX_FILE_SIZE \<Longrightarrow> long_of_ulong n = int n"
  by (simp add: long_of_ulong_def MAX_FILE_SIZE_def Let_def)

lemma blocks_needed_max: "n \<le> MAX_FILE_SIZE \<Longrightarrow> blocks_needed (int n) \<le> MAX_FILE_BLOCKS"
  by (simp add: blocks_needed_def MAX_FILE_SIZE_def MAX_FILE_BLOCKS_eq)

lemma blocks_needed_free:
  "n \<le> BLOCK_SIZE * k \<Longrightarrow> blocks_needed (int n) \<le> k"
  by (simp add: blocks_needed_def BLOCK_SIZE_def)

text \<open>
  What \<^verbatim>\<open>put\<close> returns once every check has passed and the source reads without error.
\<close>

lemma put_copied:
  assumes wf: "wf_fs s" and name: "regex_match name"
    and host: "host name = Some f" "readable f"
    and size: "length (contents f) \<le> MAX_FILE_SIZE" "length (contents f) \<le> disk_availability s"
    and slot: "get_new_file_entry s = int idx"
  shows "put s host now (Some name) =
           (if length name < FILE_NAME_FIELD then Inr (PutOk, put_state s f name now idx)
            else Inl (FileNameOverflow FILE_NAME_FIELD))"
proof -
  let ?len = "length (contents f)"
  let ?n = "blocks_needed (int ?len)"
  let ?alloc = "take ?n (free_blocks (used_space s))"
  let ?s1 = "copy_steps f idx 0 0 ?alloc s"
  have idx: "idx < DIRECTORY_SIZE"
    using slot by (cases s rule: get_new_file_entry_cases) auto
  have n_free: "?n \<le> length (free_blocks (used_space s))"
    using size(2) by (simp add: disk_availability_eq blocks_needed_free)
  have n_max: "?n \<le> MAX_FILE_BLOCKS"
    using size(1) by (rule blocks_needed_max)
  have copy: "put_copy f idx (int ?len) 0 0 s = Inr (True, ?n, ?s1)"
    using put_copy_ok [OF host(2) _ refl n_free, of 0 idx 0] wf n_max by (simp add: wf_fs_def)
  have e: "wf_inode (directory s ! idx)"
    using wf idx by (simp add: wf_fs_def list_all_length)
  have dir1: "directory ?s1 = (directory s)[idx := (directory s ! idx)
      \<lparr>blocks := map int ?alloc @ drop ?n (blocks (directory s ! idx))\<rparr>]"
    using directory_copy_steps [of idx s 0 ?alloc f 0] wf idx e n_free n_max
    by (simp add: wf_fs_def wf_inode_def)
  have e1: "directory ?s1 ! idx = (directory s ! idx)
      \<lparr>blocks := map int ?alloc @ drop ?n (blocks (directory s ! idx))\<rparr>"
    using wf idx by (simp add: dir1 wf_fs_def)
  have pad: "pad_blocks ?n (blocks (directory ?s1 ! idx)) =
      map int ?alloc @ replicate (MAX_FILE_BLOCKS - ?n) NEGATIVE"
    using e n_free n_max by (simp add: e1 pad_blocks_eq wf_inode_def)
  have cpy: "memcpy_field (file_name (directory ?s1 ! idx)) (name @ [NUL]) (length name + 1) =
      (if length name < FILE_NAME_FIELD
       then Inr (name @ NUL # drop (length name + 1) (file_name (directory ?s1 ! idx)))
       else Inl (FileNameOverflow FILE_NAME_FIELD))"
    using e by (auto simp add: e1 memcpy_field_def wf_inode_def)
  have nofull: "int idx \<noteq> - 1"
    by simp
  have long: "\<not> MAX_FILE_NAME < length name"
    using name by (simp add: regex_match_def MAX_FILE_NAME_def)
  show ?thesis
    unfolding put_def put_state_def Let_def
    using name host size slot nofull long
    by (simp add: size_cast_small long_of_ulong_small copy pad cpy del: One_nat_def)
qed

lemma put_ok:
  assumes "wf_fs s" "regex_match name" "length name < FILE_NAME_FIELD"
    "host name = Some f" "readable f"
    "length (contents f) \<le> MAX_FILE_SIZE" "length (contents f) \<le> disk_availability s"
    "get_new_file_entry s = int idx"
  shows "put s host now (Some name) = Inr (PutOk, put_state s f name now idx)"
  using put_copied [where host = host and s = s and name = name and f = f and idx = idx] assms
  by simp

lemma put_PutOk:
  assumes wf: "wf_fs s" and put: "put s host now (Some name) = Inr (PutOk, s')"
    and host: "host name = Some f" and size: "length (contents f) \<le> MAX_FILE_SIZE"
  shows "regex_match name \<and> length name < FILE_NAME_FIELD \<and> readable f \<and>
         length (contents f) \<le> disk_availability s \<and>
         (\<exists>idx < DIRECTORY_SIZE. get_new_file_entry s = int idx \<and>
            used (directory s ! idx) = 0 \<and> (\<forall>j < idx. used (directory s ! j) \<noteq> 0) \<and>
            s' = put_state s f name now idx)"
proof -
  let ?len = "length (contents f)"
  have name: "regex_match name"
    using put host by (auto simp: put_def Let_def split: if_splits)
  have space: "?len \<le> disk_availability s"
    using put host size by (auto simp: put_def Let_def size_cast_small split: if_splits)
  have nofull: "get_new_file_entry s \<noteq> - 1"
    using put host size by (auto simp: put_def Let_def size_cast_small split: if_splits)
  then obtain idx where idx: "get_new_file_entry s = int idx" "idx < DIRECTORY_SIZE"
    "used (directory s ! idx) = 0" "\<forall>j < idx. used (directory s ! j) \<noteq> 0"
    by (cases s rule: get_new_file_entry_cases) auto
  obtain c s1 where copy: "put_copy f idx (int ?len) 0 0 s = Inr (True, c, s1)"
    using put host size name space idx(1)
    by (auto simp: put_def Let_def size_cast_small long_of_ulong_small
        split: if_splits sum.splits)
  have rd: "readable f"
  proof (rule ccontr)
    assume "\<not> readable f"
    then obtain e where "read_error_at f = Some e" "e < ?len"
      by (auto simp: readable_def split: option.splits)
    then show False
      using put_copy_error [of f e 0 "int ?len" idx 0 s c s1] copy by simp
  qed
  have n_free: "blocks_needed (int ?len) \<le> length (free_blocks (used_space s))"
    using space by (simp add: disk_availability_eq blocks_needed_free)
  have copy': "put_copy f idx (int ?len) 0 0 s = Inr (True, blocks_needed (int ?len),
      copy_steps f idx 0 0 (take (blocks_needed (int ?len)) (free_blocks (used_space s))) s)"
    using put_copy_ok [OF rd _ refl n_free, of 0 idx 0] wf blocks_needed_max [OF size]
    by (simp add: wf_fs_def)
  have "\<forall>b \<in> set (take (blocks_needed (int ?len)) (free_blocks (used_space s))). b < TOTAL_BLOCKS"
    using free_blocks_bound [of _ "used_space s"] by (auto dest: in_set_takeD)
  then have wf1: "wf_fs (copy_steps f idx 0 0
      (take (blocks_needed (int ?len)) (free_blocks (used_space s))) s)"
    using wf idx(2) by (intro wf_copy_steps)
  have "s1 = copy_steps f idx 0 0
      (take (blocks_needed (int ?len)) (free_blocks (used_space s))) s"
    using trans [OF copy [symmetric] copy'] by blast
  with wf1 have "wf_fs s1"
    by simp
  then have e: "wf_inode (directory s1 ! idx)"
    using idx(2) by (simp add: wf_fs_def list_all_length)
  have len: "length name < FILE_NAME_FIELD"
  proof (rule ccontr)
    assume "\<not> length name < FILE_NAME_FIELD"
    then have "memcpy_field (file_name (directory s1 ! idx)) (name @ [NUL]) (length name + 1) =
        Inl (FileNameOverflow (length (file_name (directory s1 ! idx))))"
      using e by (simp add: memcpy_field_def wf_inode_def)
    then show False
      using put host size name space idx(1) copy
      by (simp add: put_def Let_def size_cast_small long_of_ulong_small regex_match_def
          MAX_FILE_NAME_def split: if_splits)
  qed
  have "put s host now (Some name) = Inr (PutOk, put_state s f name now idx)"
    using wf name len host rd size space idx(1) by (rule put_ok)
  with put have "s' = put_state s f name now idx"
    by simp
  with name len rd space idx show ?thesis
    by blast
qed

lemma fread_block_length: "fread_block f offset = (chunk, items, eof) \<Longrightarrow> length chunk \<le> BLOCK_SIZE"
  by (auto simp: fread_block_def Let_def split: if_splits)

lemma put_copy_wf:
  assumes "wf_fs s" "idx < DIRECTORY_SIZE"
    "put_copy f idx copy_size offset counter s = Inr (ok, c', s')"
  shows "wf_fs s'"
  using assms
proof (induction f idx copy_size offset counter s rule: put_copy.induct)
  case (1 f idx copy_size offset counter s)
  show ?case
  proof (cases "0 < copy_size")
    case False
    with "1.prems" show ?thesis
      by (subst (asm) put_copy.simps) simp
  next
    case pos: True
    obtain chunk items eof where fr: "fread_block f offset = (chunk, items, eof)"
      by (cases "fread_block f offset") auto
    let ?b = "nat (get_free_block s)"
    let ?s1 = "s\<lparr>file_data := (file_data s)[?b := chunk @ drop (length chunk) (file_data s ! ?b)]\<rparr>"
    let ?s2 = "?s1\<lparr>directory := (directory s)[idx := (directory s ! idx)
                  \<lparr>blocks := (blocks (directory s ! idx))[counter := get_free_block s]\<rparr>],
               used_space := (used_space s)[?b := SET]\<rparr>"
    have inr: "\<not> (get_free_block s < 0 \<or> int TOTAL_BLOCKS \<le> get_free_block s)"
      using "1.prems"(3) pos by (subst (asm) put_copy.simps) (auto simp: Let_def)
    then have b: "?b < TOTAL_BLOCKS"
      by linarith
    then have "length (file_data s ! ?b) = BLOCK_SIZE"
      using "1.prems"(1) by (simp add: wf_fs_def list_all_length)
    then have "length (chunk @ drop (length chunk) (file_data s ! ?b)) = BLOCK_SIZE"
      using fread_block_length [OF fr] by simp
    then have wf1: "wf_fs ?s1"
      using "1.prems"(1) by (simp add: wf_fs_def list_all_update)
    have "wf_inode ((directory s ! idx)\<lparr>blocks := (blocks (directory s ! idx))[counter := get_free_block s]\<rparr>)"
      using "1.prems"(1,2) list_all_nth [of wf_inode "directory s" idx]
      by (simp add: wf_fs_def wf_inode_def)
    then have wf2: "wf_fs ?s2"
      using wf1 by (simp add: wf_fs_def list_all_update)
    show ?thesis
    proof (cases "items = 0 \<and> \<not> eof")
      case True
      then have "s' = ?s1"
        using "1.prems"(3) pos inr
        by (subst (asm) put_copy.simps) (simp add: Let_def fr)
      with wf1 show ?thesis by simp
    next
      case False
      have cnt: "\<not> MAX_FILE_BLOCKS \<le> counter"
        using "1.prems"(3) pos inr False
        by (subst (asm) put_copy.simps) (auto simp: Let_def fr)
      have "put_copy f idx (copy_size - int BLOCK_SIZE) (offset + BLOCK_SIZE) (counter + 1) ?s2 =
          Inr (ok, c', s')"
        using "1.prems"(3) pos inr False cnt
        by (subst (asm) put_copy.simps) (simp add: Let_def fr)
      then show ?thesis
        using "1.IH" [OF pos refl inr fr [symmetric] refl refl refl False cnt] wf2 "1.prems"(2)
        by simp
    qed
  qed
qed

lemma put_copy_finds_block:
  assumes "length (used_space s) = TOTAL_BLOCKS"
    "blocks_needed copy_size \<le> length (free_blocks (used_space s))"
  shows "put_copy f idx copy_size offset counter s \<noteq> Inl (BlockIndexOutOfRange b)"
  using assms
proof (induction f idx copy_size offset counter s rule: put_copy.induct)
  case (1 f idx copy_size offset counter s)
  show ?case
  proof (cases "0 < copy_size")
    case False
    then show ?thesis
      by (subst put_copy.simps) simp
  next
    case pos: True
    then obtain b0 rest where fb: "free_blocks (used_space s) = b0 # rest"
      using "1.prems"(2) blocks_needed_Suc [OF pos]
      by (cases "free_blocks (used_space s)") auto
    have b0: "b0 < TOTAL_BLOCKS"
      using free_blocks_bound [of b0 "used_space s"] fb by simp
    have gfb: "get_free_block s = int b0"
      by (simp add: get_free_block_eq fb)
    have inr: "\<not> (get_free_block s < 0 \<or> int TOTAL_BLOCKS \<le> get_free_block s)"
      using b0 gfb by simp
    obtain chunk items eof where fr: "fread_block f offset = (chunk, items, eof)"
      by (cases "fread_block f offset") auto
    show ?thesis
    proof (cases "(items = 0 \<and> \<not> eof) \<or> MAX_FILE_BLOCKS \<le> counter")
      case True
      then show ?thesis
        using pos inr by (subst put_copy.simps) (auto simp: Let_def fr)
    next
      case False
      let ?s2 = "s\<lparr>file_data := (file_data s)[nat (get_free_block s) :=
                     chunk @ drop (length chunk) (file_data s ! nat (get_free_block s))],
                 directory := (directory s)[idx := (directory s ! idx)
                  \<lparr>blocks := (blocks (directory s ! idx))[counter := get_free_block s]\<rparr>],
               used_space := (used_space s)[nat (get_free_block s) := SET]\<rparr>"
      have "free_blocks (used_space ?s2) = rest"
        using free_blocks_alloc [OF fb "1.prems"(1)] gfb by simp
      moreover have "blocks_needed (copy_size - int BLOCK_SIZE) \<le> length rest"
        using "1.prems"(2) blocks_needed_Suc [OF pos] fb by simp
      ultimately have "put_copy f idx (copy_size - int BLOCK_SIZE) (offset + BLOCK_SIZE) (counter + 1) ?s2
          \<noteq> Inl (BlockIndexOutOfRange b)"
        using "1.IH" [OF pos refl inr fr [symmetric] refl refl] False "1.prems"(1)
        by simp
      then show ?thesis
        using pos inr False by (subst put_copy.simps) (simp add: Let_def fr)
    qed
  qed
qed

lemma put_copy_no_name_fault:
  "put_copy f idx copy_size offset counter s \<noteq> Inl (FileNameOverflow i)"
proof (induction f idx copy_size offset counter s rule: put_copy.induct)
  case (1 f idx copy_size offset counter s)
  obtain chunk items eof where fr: "fread_block f offset = (chunk, items, eof)"
    by (cases "fread_block f offset") auto
  show ?case
    using "1.IH" [OF _ refl _ fr [symmetric] refl refl]
    by (subst put_copy.simps) (auto simp: Let_def fr)
qed

lemma put_copy_prechecked:
  assumes "wf_fs s" "file_size \<le> MAX_FILE_SIZE" "file_size \<le> disk_availability s"
  shows "put_copy f idx (long_of_ulong file_size) 0 0 s \<noteq> Inl (BlockIndexOutOfRange b)"
proof -
  have "blocks_needed (int file_size) \<le> length (free_blocks (used_space s))"
    using assms(3) by (simp add: disk_availability_eq blocks_needed_free)
  then show ?thesis
    using assms(1,2) by (simp add: long_of_ulong_small put_copy_finds_block wf_fs_def)
qed

text \<open>
  C8: in every well-formed state, \<^verbatim>\<open>put\<close> never indexes the block arrays with a failed
  allocation: once the free-space check has passed, every \<^verbatim>\<open>get_free_block\<close> of the copy
  loop returns the index of a free block, never \<open>-1\<close>.
\<close>

theorem put_allocation_never_fails:
  assumes "wf_fs s"
  shows "put s host now arg \<noteq> Inl (BlockIndexOutOfRange b)"
proof (cases arg)
  case None
  then show ?thesis by (simp add: put_def)
next
  case (Some name)
  show ?thesis
  proof (cases "host name")
    case None
    with Some show ?thesis by (simp add: put_def)
  next
    case (Some f)
    let ?fsz = "size_cast (length (contents f))"
    show ?thesis
    proof (cases "?fsz \<le> MAX_FILE_SIZE \<and> ?fsz \<le> disk_availability s")
      case True
      then have "put_copy f (nat (get_new_file_entry s)) (long_of_ulong ?fsz) 0 0 s
          \<noteq> Inl (BlockIndexOutOfRange b)"
        using assms by (simp add: put_copy_prechecked)
      with \<open>arg = Some name\<close> Some show ?thesis
        by (auto simp: put_def Let_def memcpy_field_def split: sum.splits)
    next
      case False
      with \<open>arg = Some name\<close> Some show ?thesis
        by (auto simp: put_def Let_def)
    qed
  qed
qed

subsection \<open>The initial state\<close>

lemma wf_inode_init: "wf_inode inode_init"
  by (simp add: wf_inode_def inode_init_def FILE_NAME_FIELD_def)

lemma wf_fs_init: "wf_fs fs_init"
  by (simp add: wf_fs_def fs_init_def list_all_iff wf_inode_init)

lemma free_blocks_init: "free_blocks (replicate TOTAL_BLOCKS 0) = [0..<TOTAL_BLOCKS]"
  by (simp add: free_blocks_def filter_id_conv)

lemma disk_availability_init: "disk_availability fs_init = FILE_SYSTEM_SIZE"
proof -
  have "disk_availability fs_init = BLOCK_SIZE * TOTAL_BLOCKS"
    by (simp add: disk_availability_eq fs_init_def free_blocks_init)
  then show ?thesis
    by (simp add: TOTAL_BLOCKS_def FILE_SYSTEM_SIZE_def BLOCK_SIZE_def)
qed

lemma get_new_file_entry_init: "get_new_file_entry fs_init = 0"
  by (simp add: get_new_file_entry_def get_new_file_entry_loop.simps [of _ 0] fs_init_def
      inode_init_def DIRECTORY_SIZE_def)

lemma regex_match_a: "regex_match ''a''"
  by (simp add: regex_match_def name_char_def)

lemma contents_abc: "contents file_abc = [1, 2, 3]"
  by (simp add: file_abc_def)

lemma readable_abc: "readable file_abc"
  by (simp add: readable_def file_abc_def)

theorem put_allocation_never_fails_witness:
  "wf_fs fs_init \<and>
   put fs_init (\<lambda>_. Some file_abc) 0 (Some ''a'') \<noteq> Inl (BlockIndexOutOfRange (- 1))"
  using put_allocation_never_fails [of fs_init "\<lambda>_. Some file_abc" 0 "Some ''a''" "- 1"]
  by (simp add: wf_fs_init)

text \<open>
  Without the free-space check the fault is there: on a full pool the copy loop indexes
  \<^verbatim>\<open>file_data\<close> with \<open>-1\<close>.
\<close>

lemma put_copy_full_pool:
  "put_copy f idx 1 0 0 (fs_init\<lparr>used_space := replicate TOTAL_BLOCKS SET\<rparr>) =
     Inl (BlockIndexOutOfRange (- 1))"
proof -
  have "free_blocks (replicate TOTAL_BLOCKS SET) = []"
    by (simp add: free_blocks_def filter_empty_conv SET_def)
  then have "get_free_block (fs_init\<lparr>used_space := replicate TOTAL_BLOCKS SET\<rparr>) = - 1"
    by (simp add: get_free_block_eq)
  then show ?thesis
    by (subst put_copy.simps) simp
qed

subsection \<open>Name lookup\<close>

lemma rev_filter_upt_last:
  assumes "i < n" "P i" "\<forall>j. i < j \<and> j < n \<longrightarrow> \<not> P j"
  shows "rev (filter P [0..<n]) = i # rev (filter P [0..<i])"
proof -
  have "[0..<n] = [0..<i] @ i # [Suc i..<n]"
    using assms(1) by (metis less_imp_le_nat upt_add_eq_append upt_conv_Cons le0 le_add_diff_inverse plus_nat.add_0)
  moreover have "filter P [Suc i..<n] = []"
    using assms(3) by (simp add: filter_empty_conv)
  ultimately show ?thesis
    using assms(2) by simp
qed

lemma get_lookup_last:
  assumes "i < DIRECTORY_SIZE" "c_str (file_name (files ! i)) = name"
    "\<forall>j. i < j \<and> j < DIRECTORY_SIZE \<longrightarrow> c_str (file_name (files ! j)) \<noteq> name"
  shows "get_lookup files name 0 index = int i"
  using rev_filter_upt_last [of i DIRECTORY_SIZE "\<lambda>i. c_str (file_name (files ! i)) = name"] assms
  by (simp add: get_lookup_eq)

lemma get_lookup_none:
  assumes "\<forall>j < DIRECTORY_SIZE. c_str (file_name (files ! j)) \<noteq> name"
  shows "get_lookup files name 0 index = index"
proof -
  have "filter (\<lambda>i. c_str (file_name (files ! i)) = name) [0..<DIRECTORY_SIZE] = []"
    using assms by (simp add: filter_empty_conv)
  then show ?thesis
    by (simp add: get_lookup_eq)
qed

lemma delete_lookup_cases:
  obtains (none) "delete_lookup files name 0 = - 1"
      "\<forall>j < DIRECTORY_SIZE. c_str (file_name (files ! j)) \<noteq> name"
  | (found) i where "delete_lookup files name 0 = int i" "i < DIRECTORY_SIZE"
      "c_str (file_name (files ! i)) = name" "\<forall>j < i. c_str (file_name (files ! j)) \<noteq> name"
proof (cases "filter (\<lambda>i. c_str (file_name (files ! i)) = name) [0..<DIRECTORY_SIZE]")
  case Nil
  then have "delete_lookup files name 0 = - 1"
    by (simp add: delete_lookup_eq)
  moreover have "\<forall>j < DIRECTORY_SIZE. c_str (file_name (files ! j)) \<noteq> name"
    using filter_upt_Nil [OF Nil] by simp
  ultimately show ?thesis by (rule none)
next
  case (Cons i rest)
  then have "delete_lookup files name 0 = int i"
    by (simp add: delete_lookup_eq)
  moreover have "i < DIRECTORY_SIZE" "c_str (file_name (files ! i)) = name"
    "\<forall>j < i. c_str (file_name (files ! j)) \<noteq> name"
    using filter_upt_Cons [OF Cons] by simp_all
  ultimately show ?thesis by (rule found)
qed

lemma delete_lookup_first:
  assumes "i < DIRECTORY_SIZE" "c_str (file_name (files ! i)) = name"
    "\<forall>j < i. c_str (file_name (files ! j)) \<noteq> name"
  shows "delete_lookup files name 0 = int i"
proof (cases files name rule: delete_lookup_cases)
  case none
  with assms show ?thesis by simp
next
  case (found k)
  with assms have "\<not> k < i" "\<not> i < k" by auto
  with found show ?thesis by simp
qed

subsection \<open>Names\<close>

lemma name_char_not_NUL: "name_char c \<Longrightarrow> c \<noteq> NUL"
  by (auto simp: name_char_def NUL_def Let_def)

lemma regex_match_no_NUL: "regex_match name \<Longrightarrow> NUL \<notin> set name"
  using name_char_not_NUL by (auto simp: regex_match_def list_all_iff)

lemma c_str_terminated: "NUL \<notin> set name \<Longrightarrow> c_str (name @ NUL # rest) = name"
  by (induction name) (auto simp: c_str_def)

lemma c_str_cleared: "0 < length buf \<Longrightarrow> c_str (buf[0 := NUL]) = []"
  by (cases buf) (simp_all add: c_str_def)

lemma put_blocks_length:
  "length (contents f) \<le> disk_availability s \<Longrightarrow>
   length (put_blocks s f) = blocks_needed (int (length (contents f)))"
  by (simp add: put_blocks_def disk_availability_eq blocks_needed_free)

lemma put_blocks_bound: "b \<in> set (put_blocks s f) \<Longrightarrow> b < TOTAL_BLOCKS"
  unfolding put_blocks_def using free_blocks_bound by (auto dest: in_set_takeD)

lemma put_blocks_free: "b \<in> set (put_blocks s f) \<Longrightarrow> used_space s ! b = 0"
  unfolding put_blocks_def using free_blocks_free by (auto dest: in_set_takeD)

lemma put_blocks_distinct: "distinct (put_blocks s f)"
  by (simp add: put_blocks_def free_blocks_distinct)

lemma Inode_all_updated:
  "(e :: Inode)\<lparr>blocks := b, file_name := n, size_bytes := z, time_created := t, used := u\<rparr> =
   \<lparr>used = u, file_name = n, size_bytes = z, time_created = t, blocks = b\<rparr>"
  by (cases e) simp

lemma put_state_directory:
  assumes "wf_fs s" "idx < DIRECTORY_SIZE" "length (contents f) \<le> MAX_FILE_SIZE"
    "length (contents f) \<le> disk_availability s"
  shows "directory (put_state s f name now idx) =
         (directory s)[idx :=
            \<lparr>used = SET,
             file_name = name @ NUL # drop (length name + 1) (file_name (directory s ! idx)),
             size_bytes = length (contents f), time_created = now,
             blocks = map int (put_blocks s f) @
                      replicate (MAX_FILE_BLOCKS - length (put_blocks s f)) NEGATIVE\<rparr>]"
proof -
  let ?n = "blocks_needed (int (length (contents f)))"
  have n: "length (put_blocks s f) = ?n"
    using assms(4) by (rule put_blocks_length)
  have e: "wf_inode (directory s ! idx)"
    using assms(1,2) by (simp add: wf_fs_def list_all_length)
  have "directory (copy_steps f idx 0 0 (put_blocks s f) s) =
      (directory s)[idx := (directory s ! idx)
      \<lparr>blocks := map int (put_blocks s f) @ drop ?n (blocks (directory s ! idx))\<rparr>]"
    using directory_copy_steps [of idx s 0 "put_blocks s f" f 0] assms(1,2) e n
      blocks_needed_max [OF assms(3)]
    by (simp add: wf_fs_def wf_inode_def)
  then show ?thesis
    using assms(1,2) n
    by (simp add: put_state_def Let_def wf_fs_def Inode_all_updated flip: put_blocks_def)
qed

lemma put_state_file_data:
  "file_data (put_state s f name now idx) = file_data (copy_steps f idx 0 0 (put_blocks s f) s)"
  by (simp add: put_state_def Let_def put_blocks_def)

lemma put_state_used_space:
  "used_space (put_state s f name now idx) = used_space (copy_steps f idx 0 0 (put_blocks s f) s)"
  by (simp add: put_state_def Let_def put_blocks_def)

lemma put_state_block:
  assumes "wf_fs s" "k < length (put_blocks s f)"
  shows "file_data (put_state s f name now idx) ! (put_blocks s f ! k) =
         take BLOCK_SIZE (drop (BLOCK_SIZE * k) (contents f)) @
         drop (length (take BLOCK_SIZE (drop (BLOCK_SIZE * k) (contents f))))
           (file_data s ! (put_blocks s f ! k))"
  using file_data_copy_steps_nth [of k "put_blocks s f" s f idx 0 0] assms put_blocks_bound [of _ s f]
  by (simp add: put_state_file_data put_blocks_distinct wf_fs_def del: length_take)

subsection \<open>Reading back\<close>

lemma take_length_append: "take (length c) (c @ r) = c"
  by simp

lemma get_copy_reads:
  assumes "blocks_needed copy_size = n"
    "copy_size = int (length xs) - int offset"
    "\<forall>k < n. counter + k < MAX_FILE_BLOCKS \<and>
        0 \<le> blocks (directory s ! index) ! (counter + k) \<and>
        blocks (directory s ! index) ! (counter + k) < int TOTAL_BLOCKS \<and>
        take (length (take BLOCK_SIZE (drop (offset + BLOCK_SIZE * k) xs)))
          (file_data s ! nat (blocks (directory s ! index) ! (counter + k))) =
        take BLOCK_SIZE (drop (offset + BLOCK_SIZE * k) xs)"
  shows "get_copy s index copy_size counter out = Inr (out @ drop offset xs)"
  using assms
proof (induction n arbitrary: copy_size counter out offset)
  case 0
  then have "copy_size \<le> 0"
    by (simp add: blocks_needed_def)
  with 0 show ?case
    by (subst get_copy.simps) simp
next
  case (Suc n)
  have pos: "0 < copy_size"
    using Suc.prems(1) blocks_needed_0 [of copy_size] by (cases "0 < copy_size") auto
  let ?B = "blocks (directory s ! index)"
  let ?chunk = "take BLOCK_SIZE (drop offset xs)"
  have first: "counter < MAX_FILE_BLOCKS" "0 \<le> ?B ! counter" "?B ! counter < int TOTAL_BLOCKS"
    "take (length ?chunk) (file_data s ! nat (?B ! counter)) = ?chunk"
    using Suc.prems(3) [rule_format, of 0] by simp_all
  have num: "(if copy_size < int BLOCK_SIZE then nat copy_size else BLOCK_SIZE) = length ?chunk"
    using pos Suc.prems(2) by auto
  have n: "blocks_needed (copy_size - int BLOCK_SIZE) = n"
    using blocks_needed_Suc [OF pos] Suc.prems(1) by simp
  have rest: "\<forall>k < n. (counter + 1) + k < MAX_FILE_BLOCKS \<and>
        0 \<le> ?B ! ((counter + 1) + k) \<and> ?B ! ((counter + 1) + k) < int TOTAL_BLOCKS \<and>
        take (length (take BLOCK_SIZE (drop ((offset + BLOCK_SIZE) + BLOCK_SIZE * k) xs)))
          (file_data s ! nat (?B ! ((counter + 1) + k))) =
        take BLOCK_SIZE (drop ((offset + BLOCK_SIZE) + BLOCK_SIZE * k) xs)"
  proof (intro allI impI)
    fix k assume "k < n"
    then show "(counter + 1) + k < MAX_FILE_BLOCKS \<and>
        0 \<le> ?B ! ((counter + 1) + k) \<and> ?B ! ((counter + 1) + k) < int TOTAL_BLOCKS \<and>
        take (length (take BLOCK_SIZE (drop ((offset + BLOCK_SIZE) + BLOCK_SIZE * k) xs)))
          (file_data s ! nat (?B ! ((counter + 1) + k))) =
        take BLOCK_SIZE (drop ((offset + BLOCK_SIZE) + BLOCK_SIZE * k) xs)"
      using Suc.prems(3) [rule_format, of "Suc k"] by (simp add: add.assoc del: length_take)
  qed
  have IH: "get_copy s index (copy_size - int BLOCK_SIZE) (counter + 1) (out @ ?chunk) =
      Inr ((out @ ?chunk) @ drop (offset + BLOCK_SIZE) xs)"
    using Suc.prems(2) by (intro Suc.IH [OF n _ rest]) simp
  have "?chunk @ drop (offset + BLOCK_SIZE) xs = drop offset xs"
    by (metis add.commute append_take_drop_id drop_drop)
  then have fin: "(out @ ?chunk) @ drop (offset + BLOCK_SIZE) xs = out @ drop offset xs"
    by simp
  have step: "get_copy s index copy_size counter out =
      get_copy s index (copy_size - int BLOCK_SIZE) (counter + 1) (out @ ?chunk)"
    using pos first(1,2,3)
    by (subst get_copy.simps) (simp add: Let_def num first(4) del: length_take)
  show ?case
    unfolding step IH fin ..
qed

lemma get_after_put:
  assumes wf: "wf_fs s" and name: "regex_match name" "length name < FILE_NAME_FIELD"
    and idx: "idx < DIRECTORY_SIZE"
    and size: "length (contents f) \<le> MAX_FILE_SIZE" "length (contents f) \<le> disk_availability s"
    and last: "\<forall>j. idx < j \<and> j < DIRECTORY_SIZE \<longrightarrow> c_str (file_name (directory s ! j)) \<noteq> name"
  shows "get (put_state s f name now idx) writable (Some name) arg2 =
           (if fopen_w writable (case arg2 of None \<Rightarrow> name | Some other \<Rightarrow> other)
            then Inr (GetOk (case arg2 of None \<Rightarrow> name | Some other \<Rightarrow> other) (contents f))
            else Inl NullPointer)"
proof -
  let ?s' = "put_state s f name now idx"
  let ?bs = "put_blocks s f"
  let ?e = "\<lparr>used = SET,
             file_name = name @ NUL # drop (length name + 1) (file_name (directory s ! idx)),
             size_bytes = length (contents f), time_created = now,
             blocks = map int ?bs @ replicate (MAX_FILE_BLOCKS - length ?bs) NEGATIVE\<rparr>"
  have dir: "directory ?s' = (directory s)[idx := ?e]"
    using wf idx size by (rule put_state_directory)
  have len: "length (directory s) = DIRECTORY_SIZE"
    using wf by (simp add: wf_fs_def)
  have at: "directory ?s' ! idx = ?e"
    using idx len by (simp add: dir)
  have other: "directory ?s' ! j = directory s ! j" if "j \<noteq> idx" for j
    using that by (simp add: dir)
  have n: "length ?bs = blocks_needed (int (length (contents f)))"
    using size(2) by (rule put_blocks_length)
  have "c_str (file_name (directory ?s' ! idx)) = name"
    using regex_match_no_NUL [OF name(1)] by (simp add: at c_str_terminated)
  moreover have "\<forall>j. idx < j \<and> j < DIRECTORY_SIZE \<longrightarrow> c_str (file_name (directory ?s' ! j)) \<noteq> name"
    using last other by simp
  ultimately have lookup: "get_lookup (directory ?s') name 0 (- 1) = int idx"
    using idx by (intro get_lookup_last)
  have reads: "\<forall>k < length ?bs. 0 + k < MAX_FILE_BLOCKS \<and>
        0 \<le> blocks (directory ?s' ! idx) ! (0 + k) \<and>
        blocks (directory ?s' ! idx) ! (0 + k) < int TOTAL_BLOCKS \<and>
        take (length (take BLOCK_SIZE (drop (0 + BLOCK_SIZE * k) (contents f))))
          (file_data ?s' ! nat (blocks (directory ?s' ! idx) ! (0 + k))) =
        take BLOCK_SIZE (drop (0 + BLOCK_SIZE * k) (contents f))"
  proof (intro allI impI)
    fix k assume k: "k < length ?bs"
    have b: "blocks (directory ?s' ! idx) ! (0 + k) = int (?bs ! k)"
      using k by (simp add: at nth_append)
    have "?bs ! k < TOTAL_BLOCKS"
      using k put_blocks_bound [of "?bs ! k" s f] by simp
    moreover have "k < MAX_FILE_BLOCKS"
      using k n blocks_needed_max [OF size(1)] by simp
    moreover have "take (length (take BLOCK_SIZE (drop (0 + BLOCK_SIZE * k) (contents f))))
          (file_data ?s' ! (?bs ! k)) = take BLOCK_SIZE (drop (0 + BLOCK_SIZE * k) (contents f))"
      unfolding put_state_block [OF wf k, of name now idx] add_0 by (rule take_length_append)
    ultimately show "0 + k < MAX_FILE_BLOCKS \<and>
        0 \<le> blocks (directory ?s' ! idx) ! (0 + k) \<and>
        blocks (directory ?s' ! idx) ! (0 + k) < int TOTAL_BLOCKS \<and>
        take (length (take BLOCK_SIZE (drop (0 + BLOCK_SIZE * k) (contents f))))
          (file_data ?s' ! nat (blocks (directory ?s' ! idx) ! (0 + k))) =
        take BLOCK_SIZE (drop (0 + BLOCK_SIZE * k) (contents f))"
      unfolding b by (simp del: length_take)
  qed
  have "get_copy ?s' idx (int (length (contents f))) 0 [] = Inr ([] @ drop 0 (contents f))"
    using n by (intro get_copy_reads [OF _ _ reads]) simp_all
  then have copy: "get_copy ?s' idx (int (length (contents f))) 0 [] = Inr (contents f)"
    by simp
  have sz: "long_of_ulong (size_bytes (directory ?s' ! idx)) = int (length (contents f))"
    using size(1) by (simp add: at long_of_ulong_small)
  show ?thesis
    unfolding get_def by (simp add: lookup Let_def sz copy)
qed

lemma c_str_init: "c_str (file_name inode_init) = []"
  by (simp add: inode_init_def c_str_def FILE_NAME_FIELD_def)

lemma directory_init_nth: "j < DIRECTORY_SIZE \<Longrightarrow> directory fs_init ! j = inode_init"
  by (simp add: fs_init_def)

lemma contents_block: "contents file_block = replicate 2048 7"
  by (simp add: file_block_def)

lemma readable_block: "readable file_block"
  by (simp add: readable_def file_block_def)

lemma put_init_abc:
  "put fs_init (\<lambda>_. Some file_abc) now (Some ''a'') =
     Inr (PutOk, put_state fs_init file_abc ''a'' now 0)"
  using put_ok [of fs_init "''a''" "\<lambda>_. Some file_abc" file_abc 0 now]
  by (simp add: wf_fs_init regex_match_a readable_abc disk_availability_init
      get_new_file_entry_init contents_abc MAX_FILE_SIZE_def FILE_SYSTEM_SIZE_def
      FILE_NAME_FIELD_def)

lemma put_init_block:
  "put fs_init (\<lambda>_. Some file_block) now (Some ''a'') =
     Inr (PutOk, put_state fs_init file_block ''a'' now 0)"
  using put_ok [of fs_init "''a''" "\<lambda>_. Some file_block" file_block 0 now]
  by (simp add: wf_fs_init regex_match_a readable_block disk_availability_init
      get_new_file_entry_init contents_block MAX_FILE_SIZE_def FILE_SYSTEM_SIZE_def
      FILE_NAME_FIELD_def)

text \<open>
  C1 (amended): in a well-formed state in which no directory slot holds the name yet, a
  \<^verbatim>\<open>put\<close> of a file of at most \<open>MAX_FILE_SIZE\<close> bytes that returns without a message,
  followed by \<^verbatim>\<open>get\<close> of the same name, writes exactly the bytes of the file, whether
  their number is a multiple of \<open>BLOCK_SIZE\<close> or not, to every output file that the host
  opens for writing; when the host does not open it, \<^verbatim>\<open>get\<close> uses the \<^verbatim>\<open>NULL\<close> stream.
\<close>

theorem put_get_round_trip:
  assumes "wf_fs s" "host name = Some f" "length (contents f) \<le> MAX_FILE_SIZE"
    "put s host now (Some name) = Inr (PutOk, s')"
    "\<forall>j < DIRECTORY_SIZE. c_str (file_name (directory s ! j)) \<noteq> name"
  shows "get s' writable (Some name) arg2 =
           (if fopen_w writable (case arg2 of None \<Rightarrow> name | Some other \<Rightarrow> other)
            then Inr (GetOk (case arg2 of None \<Rightarrow> name | Some other \<Rightarrow> other) (contents f))
            else Inl NullPointer)"
proof -
  from put_PutOk [OF assms(1,4,2,3)] obtain idx where
    name: "regex_match name" "length name < FILE_NAME_FIELD"
    and space: "length (contents f) \<le> disk_availability s"
    and idx: "idx < DIRECTORY_SIZE" and s': "s' = put_state s f name now idx"
    by blast
  have "\<forall>j. idx < j \<and> j < DIRECTORY_SIZE \<longrightarrow> c_str (file_name (directory s ! j)) \<noteq> name"
    using assms(5) by simp
  then show ?thesis
    unfolding s' using assms(1,3) name idx space by (intro get_after_put)
qed

theorem put_get_round_trip_witness:
  "wf_fs fs_init \<and>
   put fs_init (\<lambda>_. Some file_abc) 0 (Some ''a'') =
     Inr (PutOk, put_state fs_init file_abc ''a'' 0 0) \<and>
   get (put_state fs_init file_abc ''a'' 0 0) (\<lambda>_. True) (Some ''a'') None =
     Inr (GetOk ''a'' [1, 2, 3]) \<and>
   put fs_init (\<lambda>_. Some file_block) 0 (Some ''a'') =
     Inr (PutOk, put_state fs_init file_block ''a'' 0 0) \<and>
   get (put_state fs_init file_block ''a'' 0 0) (\<lambda>_. True) (Some ''a'') (Some ''b'') =
     Inr (GetOk ''b'' (replicate 2048 7)) \<and>
   get (put_state fs_init file_block ''a'' 0 0) (\<lambda>_. False) (Some ''a'') (Some ''b'') =
     Inl NullPointer"
proof -
  have none: "\<forall>j < DIRECTORY_SIZE. c_str (file_name (directory fs_init ! j)) \<noteq> ''a''"
    by (simp add: directory_init_nth c_str_init)
  have "get (put_state fs_init file_abc ''a'' 0 0) (\<lambda>_. True) (Some ''a'') None =
      Inr (GetOk ''a'' (contents file_abc))"
    using put_get_round_trip [OF wf_fs_init _ _ put_init_abc none, where f = file_abc
        and ?arg2.0 = None and writable = "\<lambda>_. True"]
    by (simp add: contents_abc MAX_FILE_SIZE_def fopen_w_def)
  moreover have "get (put_state fs_init file_block ''a'' 0 0) (\<lambda>_. True) (Some ''a'') (Some ''b'') =
      Inr (GetOk ''b'' (contents file_block))"
    using put_get_round_trip [OF wf_fs_init _ _ put_init_block none, where f = file_block
        and ?arg2.0 = "Some ''b''" and writable = "\<lambda>_. True"]
    by (simp add: contents_block MAX_FILE_SIZE_def fopen_w_def)
  moreover have "get (put_state fs_init file_block ''a'' 0 0) (\<lambda>_. False) (Some ''a'') (Some ''b'') =
      Inl NullPointer"
    using put_get_round_trip [OF wf_fs_init _ _ put_init_block none, where f = file_block
        and ?arg2.0 = "Some ''b''" and writable = "\<lambda>_. False"]
    by (simp add: contents_block MAX_FILE_SIZE_def fopen_w_def)
  ultimately show ?thesis
    by (simp add: wf_fs_init put_init_abc put_init_block contents_abc contents_block)
qed

subsection \<open>The loop of delete\<close>

lemma takeWhile_drop_Nil:
  "counter < length B \<Longrightarrow> takeWhile P (drop counter B) = [] \<Longrightarrow> \<not> P (B ! counter)"
  by (simp add: Cons_nth_drop_Suc [symmetric] split: if_splits)

lemma takeWhile_drop_Cons:
  "counter < length B \<Longrightarrow> takeWhile P (drop counter B) = b # rest \<Longrightarrow>
   B ! counter = b \<and> P b \<and> rest = takeWhile P (drop (Suc counter) B)"
  by (simp add: Cons_nth_drop_Suc [symmetric] split: if_splits)

lemma delete_loop_ok:
  assumes "index < length (directory s)"
    "length (blocks (directory s ! index)) = MAX_FILE_BLOCKS"
    "takeWhile (\<lambda>b. - 1 < b) (drop counter (blocks (directory s ! index))) = run"
    "\<forall>b \<in> set run. b < int TOTAL_BLOCKS"
    "counter + length run < MAX_FILE_BLOCKS"
  shows "delete_loop index counter (blocks (directory s ! index) ! counter) s =
         Inr (s\<lparr>file_data := clear_data run (file_data s),
                used_space := clear_space run (used_space s),
                directory := (directory s)[index := (directory s ! index)
                  \<lparr>blocks := take counter (blocks (directory s ! index)) @
                             replicate (length run) UNSET @
                             drop (counter + length run) (blocks (directory s ! index))\<rparr>]\<rparr>)"
  using assms
proof (induction run arbitrary: counter s)
  case Nil
  let ?B = "blocks (directory s ! index)"
  have "\<not> - 1 < ?B ! counter"
    using takeWhile_drop_Nil [of counter ?B "\<lambda>b. - 1 < b"] Nil.prems by simp
  then show ?case
    by (subst delete_loop.simps) (simp add: list_update_same_conv Nil.prems(1))
next
  case (Cons b rest)
  let ?B = "blocks (directory s ! index)"
  have c: "counter < length ?B"
    using Cons.prems by simp
  have hd: "?B ! counter = b" "- 1 < b" "rest = takeWhile (\<lambda>b. - 1 < b) (drop (Suc counter) ?B)"
    using takeWhile_drop_Cons [OF c Cons.prems(3)] by simp_all
  have b: "b < int TOTAL_BLOCKS"
    using Cons.prems(4) by simp
  let ?s1 = "s\<lparr>file_data := (file_data s)[nat b := (file_data s ! nat b)[0 := 0]],
                used_space := (used_space s)[nat b := UNSET],
                directory := (directory s)[index := (directory s ! index)
                   \<lparr>blocks := ?B[counter := UNSET]\<rparr>]\<rparr>"
  have B1: "blocks (directory ?s1 ! index) = ?B[counter := UNSET]"
    using Cons.prems(1) by simp
  have next1: "\<not> MAX_FILE_BLOCKS \<le> counter + 1"
    using Cons.prems(5) by simp
  have step: "delete_loop index counter (?B ! counter) s =
      delete_loop index (counter + 1) (blocks (directory ?s1 ! index) ! (counter + 1)) ?s1"
    using hd(1,2) b next1
    by (subst delete_loop.simps) (simp add: Let_def)
  have run1: "takeWhile (\<lambda>b. - 1 < b) (drop (counter + 1) (blocks (directory ?s1 ! index))) = rest"
    unfolding B1 using hd(3) by simp
  have IH: "delete_loop index (counter + 1) (blocks (directory ?s1 ! index) ! (counter + 1)) ?s1 =
      Inr (?s1\<lparr>file_data := clear_data rest (file_data ?s1),
                used_space := clear_space rest (used_space ?s1),
                directory := (directory ?s1)[index := (directory ?s1 ! index)
                  \<lparr>blocks := take (counter + 1) (blocks (directory ?s1 ! index)) @
                             replicate (length rest) UNSET @
                             drop (counter + 1 + length rest) (blocks (directory ?s1 ! index))\<rparr>]\<rparr>)"
    using Cons.prems B1 by (intro Cons.IH [OF _ _ run1]) simp_all
  have t: "take (Suc counter) (?B[counter := UNSET]) = take counter ?B @ [UNSET]"
    using c by (simp add: take_Suc_conv_app_nth)
  show ?case
    unfolding step IH using Cons.prems(1) by (simp add: B1 t)
qed

lemma delete_loop_no_sentinel:
  assumes "index < length (directory s)"
    "length (blocks (directory s ! index)) = MAX_FILE_BLOCKS"
    "takeWhile (\<lambda>b. - 1 < b) (drop counter (blocks (directory s ! index))) = run"
    "\<forall>b \<in> set run. b < int TOTAL_BLOCKS"
    "counter + length run = MAX_FILE_BLOCKS" "counter < MAX_FILE_BLOCKS"
  shows "delete_loop index counter (blocks (directory s ! index) ! counter) s =
         Inl (BlocksIndexOutOfRange MAX_FILE_BLOCKS)"
  using assms
proof (induction run arbitrary: counter s)
  case Nil
  then show ?case by simp
next
  case (Cons b rest)
  let ?B = "blocks (directory s ! index)"
  have c: "counter < length ?B"
    using Cons.prems by simp
  have hd: "?B ! counter = b" "- 1 < b" "rest = takeWhile (\<lambda>b. - 1 < b) (drop (Suc counter) ?B)"
    using takeWhile_drop_Cons [OF c Cons.prems(3)] by simp_all
  have b: "b < int TOTAL_BLOCKS"
    using Cons.prems(4) by simp
  show ?case
  proof (cases "counter + 1 = MAX_FILE_BLOCKS")
    case True
    then show ?thesis
      using hd(1,2) b by (subst delete_loop.simps) (simp add: Let_def)
  next
    case False
    let ?s1 = "s\<lparr>file_data := (file_data s)[nat b := (file_data s ! nat b)[0 := 0]],
                  used_space := (used_space s)[nat b := UNSET],
                  directory := (directory s)[index := (directory s ! index)
                     \<lparr>blocks := ?B[counter := UNSET]\<rparr>]\<rparr>"
    have B1: "blocks (directory ?s1 ! index) = ?B[counter := UNSET]"
      using Cons.prems(1) by simp
    have next1: "\<not> MAX_FILE_BLOCKS \<le> counter + 1"
      using Cons.prems(6) False by simp
    have step: "delete_loop index counter (?B ! counter) s =
        delete_loop index (counter + 1) (blocks (directory ?s1 ! index) ! (counter + 1)) ?s1"
      using hd(1,2) b next1
      by (subst delete_loop.simps) (simp add: Let_def)
    have run1: "takeWhile (\<lambda>b. - 1 < b) (drop (counter + 1) (blocks (directory ?s1 ! index))) = rest"
      unfolding B1 using hd(3) by simp
    have "delete_loop index (counter + 1) (blocks (directory ?s1 ! index) ! (counter + 1)) ?s1 =
        Inl (BlocksIndexOutOfRange MAX_FILE_BLOCKS)"
      using Cons.prems B1 next1 by (intro Cons.IH [OF _ _ run1]) simp_all
    then show ?thesis
      unfolding step .
  qed
qed

lemma clear_space_length [simp]: "length (clear_space run us) = length us"
  by (induction run arbitrary: us) simp_all

lemma clear_data_length [simp]: "length (clear_data run fd) = length fd"
  by (induction run arbitrary: fd) simp_all

lemma clear_space_nth:
  "\<forall>b \<in> set run. 0 \<le> b \<Longrightarrow> k < length us \<Longrightarrow>
   clear_space run us ! k = (if int k \<in> set run then UNSET else us ! k)"
proof (induction run arbitrary: us)
  case Nil
  then show ?case by simp
next
  case (Cons b run)
  have "nat b = k \<longleftrightarrow> b = int k"
    using Cons.prems(1) by auto
  then show ?case
    using Cons by (auto simp: nth_list_update)
qed

lemma clear_data_nth:
  "\<forall>b \<in> set run. 0 \<le> b \<Longrightarrow> k < length fd \<Longrightarrow>
   clear_data run fd ! k = (if int k \<in> set run then (fd ! k)[0 := 0] else fd ! k)"
proof (induction run arbitrary: fd)
  case Nil
  then show ?case by simp
next
  case (Cons b run)
  have "nat b = k \<longleftrightarrow> b = int k"
    using Cons.prems(1) by auto
  then show ?case
    using Cons by (auto simp: nth_list_update)
qed

lemma clear_data_block_length:
  "list_all (\<lambda>blk. length blk = n) fd \<Longrightarrow> list_all (\<lambda>blk. length blk = n) (clear_data run fd)"
proof (induction run arbitrary: fd)
  case Nil
  then show ?case by simp
next
  case (Cons b run)
  have "list_all (\<lambda>blk. length blk = n) (fd[nat b := (fd ! nat b)[0 := 0]])"
  proof (cases "nat b < length fd")
    case True
    with Cons.prems show ?thesis
      by (intro list_all_update) (simp_all add: list_all_length)
  next
    case False
    with Cons.prems show ?thesis by (simp add: list_update_beyond)
  qed
  then show ?case
    using Cons.IH by simp
qed

lemma owned_blocks_nonneg: "b \<in> set (owned_blocks e) \<Longrightarrow> 0 \<le> b"
  unfolding owned_blocks_def by (auto dest: set_takeWhileD)

lemma fs_all_updated:
  "(s :: fs)\<lparr>file_data := d, used_space := u, directory := f\<rparr> =
   \<lparr>directory = f, file_data = d, used_space = u\<rparr>"
  by (cases s) simp

lemma Inode_cleared:
  "(e :: Inode)\<lparr>blocks := b, size_bytes := z, time_created := t, used := u, file_name := n\<rparr> =
   \<lparr>used = u, file_name = n, size_bytes = z, time_created = t, blocks = b\<rparr>"
  by (cases e) simp

lemma delete_ok:
  assumes wf: "wf_fs s" and i: "i < DIRECTORY_SIZE"
    and name: "c_str (file_name (directory s ! i)) = name"
      "\<forall>j < i. c_str (file_name (directory s ! j)) \<noteq> name"
    and owned: "\<forall>b \<in> set (owned_blocks (directory s ! i)). b < int TOTAL_BLOCKS"
      "length (owned_blocks (directory s ! i)) < MAX_FILE_BLOCKS"
  shows "delete s (Some name) = Inr (DeleteOk, delete_state s i)"
proof -
  let ?e = "directory s ! i"
  let ?run = "owned_blocks ?e"
  have lookup: "delete_lookup (directory s) name 0 = int i"
    using i name by (rule delete_lookup_first)
  have len: "i < length (directory s)" "length (blocks ?e) = MAX_FILE_BLOCKS"
    using wf i by (simp_all add: wf_fs_def wf_inode_def list_all_length)
  have loop: "delete_loop i 0 (blocks ?e ! 0) s =
      Inr (s\<lparr>file_data := clear_data ?run (file_data s),
             used_space := clear_space ?run (used_space s),
             directory := (directory s)[i := ?e
               \<lparr>blocks := take 0 (blocks ?e) @ replicate (length ?run) UNSET @
                          drop (0 + length ?run) (blocks ?e)\<rparr>]\<rparr>)"
    using owned by (intro delete_loop_ok [OF len]) (simp_all add: owned_blocks_def)
  show ?thesis
    unfolding delete_def
    using len(1) by (simp add: lookup Let_def loop delete_state_def fs_all_updated Inode_cleared)
qed

lemma delete_no_sentinel:
  assumes wf: "wf_fs s" and i: "i < DIRECTORY_SIZE"
    and name: "c_str (file_name (directory s ! i)) = name"
      "\<forall>j < i. c_str (file_name (directory s ! j)) \<noteq> name"
    and owned: "\<forall>b \<in> set (owned_blocks (directory s ! i)). b < int TOTAL_BLOCKS"
      "length (owned_blocks (directory s ! i)) = MAX_FILE_BLOCKS"
  shows "delete s (Some name) = Inl (BlocksIndexOutOfRange MAX_FILE_BLOCKS)"
proof -
  let ?e = "directory s ! i"
  have lookup: "delete_lookup (directory s) name 0 = int i"
    using i name by (rule delete_lookup_first)
  have len: "i < length (directory s)" "length (blocks ?e) = MAX_FILE_BLOCKS"
    using wf i by (simp_all add: wf_fs_def wf_inode_def list_all_length)
  have "delete_loop i 0 (blocks ?e ! 0) s = Inl (BlocksIndexOutOfRange MAX_FILE_BLOCKS)"
    using owned by (intro delete_loop_no_sentinel [OF len]) (simp_all add: owned_blocks_def MAX_FILE_BLOCKS_eq)
  then show ?thesis
    unfolding delete_def by (simp add: lookup Let_def)
qed

lemma delete_not_found:
  assumes "\<forall>j < DIRECTORY_SIZE. c_str (file_name (directory s ! j)) \<noteq> name"
  shows "delete s (Some name) = Inr (DeleteNotFound, s)"
proof (cases "directory s" name rule: delete_lookup_cases)
  case none
  then show ?thesis by (simp add: delete_def)
next
  case (found i)
  with assms show ?thesis by simp
qed

lemma wf_delete_state:
  assumes "wf_fs s" "i < DIRECTORY_SIZE"
  shows "wf_fs (delete_state s i)"
proof -
  let ?e = "directory s ! i"
  have e: "wf_inode ?e"
    using assms by (simp add: wf_fs_def list_all_length)
  have "length (owned_blocks ?e) \<le> length (blocks ?e)"
    by (simp add: owned_blocks_def length_takeWhile_le)
  then have "wf_inode \<lparr>used = UNSET, file_name = (file_name ?e)[0 := NUL], size_bytes = 0,
      time_created = 0,
      blocks = replicate (length (owned_blocks ?e)) UNSET @ drop (length (owned_blocks ?e)) (blocks ?e)\<rparr>"
    using e by (auto simp: wf_inode_def FILE_NAME_FIELD_def set_update_memI)
  then show ?thesis
    using assms(1) by (simp add: wf_fs_def delete_state_def Let_def list_all_update clear_data_block_length)
qed

text \<open>The loop of \<^verbatim>\<open>delete\<close> ends without a fault only at an entry that is not above \<open>-1\<close>.\<close>

lemma delete_loop_Inr_sentinel:
  assumes "delete_loop index counter block_num s = Inr s2"
    "block_num = blocks (directory s ! index) ! counter" "index < length (directory s)"
    "counter < MAX_FILE_BLOCKS"
  shows "\<exists>k. counter \<le> k \<and> k < MAX_FILE_BLOCKS \<and> blocks (directory s ! index) ! k \<le> - 1"
  using assms
proof (induction index counter block_num s rule: delete_loop.induct)
  case (1 index counter block_num s)
  let ?B = "blocks (directory s ! index)"
  show ?case
  proof (cases "- 1 < block_num")
    case False
    with "1.prems" show ?thesis by auto
  next
    case True
    let ?b = "nat block_num"
    let ?s1 = "s\<lparr>file_data := (file_data s)[?b := (file_data s ! ?b)[0 := 0]],
                  used_space := (used_space s)[?b := UNSET],
                  directory := (directory s)[index := (directory s ! index)
                     \<lparr>blocks := ?B[counter := UNSET]\<rparr>]\<rparr>"
    have inr: "\<not> int TOTAL_BLOCKS \<le> block_num" "\<not> MAX_FILE_BLOCKS \<le> counter + 1"
      using "1.prems"(1) True by (subst (asm) delete_loop.simps, auto simp: Let_def split: if_splits)+
    have rec: "delete_loop index (counter + 1) (blocks (directory ?s1 ! index) ! (counter + 1)) ?s1 = Inr s2"
      using "1.prems"(1) True inr by (subst (asm) delete_loop.simps) (simp add: Let_def)
    have "\<exists>k. counter + 1 \<le> k \<and> k < MAX_FILE_BLOCKS \<and> blocks (directory ?s1 ! index) ! k \<le> - 1"
      using "1.IH" [OF True inr(1) refl refl inr(2) rec] "1.prems"(3) inr(2) by simp
    then obtain k where k: "counter + 1 \<le> k" "k < MAX_FILE_BLOCKS"
      "blocks (directory ?s1 ! index) ! k \<le> - 1"
      by blast
    have "blocks (directory ?s1 ! index) ! k = ?B ! k"
      using k(1) "1.prems"(3) by simp
    with k show ?thesis
      by (intro exI [of _ k]) simp
  qed
qed

subsection \<open>The state after put\<close>

lemma wf_put_state:
  assumes "wf_fs s" "idx < DIRECTORY_SIZE" "length name < FILE_NAME_FIELD"
    "length (contents f) \<le> MAX_FILE_SIZE" "length (contents f) \<le> disk_availability s"
  shows "wf_fs (put_state s f name now idx)"
proof -
  let ?bs = "put_blocks s f"
  let ?s1 = "copy_steps f idx 0 0 ?bs s"
  have wf1: "wf_fs ?s1"
    using assms(1,2) put_blocks_bound [of _ s f] by (intro wf_copy_steps) auto
  have n: "length ?bs \<le> MAX_FILE_BLOCKS"
    using put_blocks_length [OF assms(5)] blocks_needed_max [OF assms(4)] by simp
  have e: "wf_inode (directory s ! idx)"
    using assms(1,2) by (simp add: wf_fs_def list_all_length)
  have "wf_inode \<lparr>used = SET,
             file_name = name @ NUL # drop (length name + 1) (file_name (directory s ! idx)),
             size_bytes = length (contents f), time_created = now,
             blocks = map int ?bs @ replicate (MAX_FILE_BLOCKS - length ?bs) NEGATIVE\<rparr>"
    using e n assms(3) by (simp add: wf_inode_def)
  moreover have "list_all wf_inode (directory s)" "length (directory s) = DIRECTORY_SIZE"
    using assms(1) by (simp_all add: wf_fs_def)
  ultimately have "list_all wf_inode (directory (put_state s f name now idx))"
    "length (directory (put_state s f name now idx)) = DIRECTORY_SIZE"
    by (simp_all add: put_state_directory [OF assms(1,2,4,5)] list_all_update)
  then show ?thesis
    using wf1 by (simp add: wf_fs_def put_state_file_data put_state_used_space)
qed

lemma put_state_entry:
  assumes "wf_fs s" "idx < DIRECTORY_SIZE" "length (contents f) \<le> MAX_FILE_SIZE"
    "length (contents f) \<le> disk_availability s"
  shows "directory (put_state s f name now idx) ! idx =
            \<lparr>used = SET,
             file_name = name @ NUL # drop (length name + 1) (file_name (directory s ! idx)),
             size_bytes = length (contents f), time_created = now,
             blocks = map int (put_blocks s f) @
                      replicate (MAX_FILE_BLOCKS - length (put_blocks s f)) NEGATIVE\<rparr>"
  using assms by (simp add: put_state_directory wf_fs_def)

lemma put_state_other:
  assumes "wf_fs s" "idx < DIRECTORY_SIZE" "length (contents f) \<le> MAX_FILE_SIZE"
    "length (contents f) \<le> disk_availability s" "j \<noteq> idx"
  shows "directory (put_state s f name now idx) ! j = directory s ! j"
  using assms by (simp add: put_state_directory)

lemma takeWhile_append_replicate:
  "\<forall>x \<in> set xs. P x \<Longrightarrow> \<not> P y \<Longrightarrow> takeWhile P (xs @ replicate n y) = xs"
  by (induction xs) (simp_all add: takeWhile_replicate)

lemma owned_blocks_put_entry:
  "owned_blocks \<lparr>used = u, file_name = n, size_bytes = z, time_created = t,
       blocks = map int bs @ replicate m NEGATIVE\<rparr> = map int bs"
  unfolding owned_blocks_def NEGATIVE_def
  by (simp add: takeWhile_append_replicate)

lemma contents_big: "contents file_big = replicate 98304 0"
  by (simp add: file_big_def)

lemma readable_big: "readable file_big"
  by (simp add: readable_def file_big_def)

lemma put_init_big:
  "put fs_init (\<lambda>_. Some file_big) now (Some ''a'') =
     Inr (PutOk, put_state fs_init file_big ''a'' now 0)"
  using put_ok [of fs_init "''a''" "\<lambda>_. Some file_big" file_big 0 now]
  by (simp add: wf_fs_init regex_match_a readable_big disk_availability_init
      get_new_file_entry_init contents_big MAX_FILE_SIZE_def FILE_SYSTEM_SIZE_def
      FILE_NAME_FIELD_def)

lemma put_entry_delete:
  assumes wf: "wf_fs s" and host: "host name = Some f"
    and size: "length (contents f) \<le> MAX_FILE_SIZE"
    and put: "put s host now (Some name) = Inr (PutOk, s')"
    and slot: "get_new_file_entry s = int idx"
  shows "wf_fs s'" "idx < DIRECTORY_SIZE"
    "blocks (directory s' ! idx) = map int (put_blocks s f) @
       replicate (MAX_FILE_BLOCKS - blocks_needed (int (length (contents f)))) NEGATIVE"
    "owned_blocks (directory s' ! idx) = map int (put_blocks s f)"
    "length (put_blocks s f) = blocks_needed (int (length (contents f)))"
    "c_str (file_name (directory s' ! idx)) = name"
    "\<forall>j < DIRECTORY_SIZE. j \<noteq> idx \<longrightarrow> directory s' ! j = directory s ! j"
proof -
  from put_PutOk [OF wf put host size] slot have
    name: "regex_match name" "length name < FILE_NAME_FIELD"
    and space: "length (contents f) \<le> disk_availability s"
    and idx: "idx < DIRECTORY_SIZE" and s': "s' = put_state s f name now idx"
    by auto
  show "idx < DIRECTORY_SIZE" by (rule idx)
  show "wf_fs s'"
    unfolding s' using wf idx name(2) size space by (rule wf_put_state)
  show n: "length (put_blocks s f) = blocks_needed (int (length (contents f)))"
    using space by (rule put_blocks_length)
  have e: "directory s' ! idx =
            \<lparr>used = SET,
             file_name = name @ NUL # drop (length name + 1) (file_name (directory s ! idx)),
             size_bytes = length (contents f), time_created = now,
             blocks = map int (put_blocks s f) @
                      replicate (MAX_FILE_BLOCKS - length (put_blocks s f)) NEGATIVE\<rparr>"
    unfolding s' using wf idx size space by (rule put_state_entry)
  show "blocks (directory s' ! idx) = map int (put_blocks s f) @
       replicate (MAX_FILE_BLOCKS - blocks_needed (int (length (contents f)))) NEGATIVE"
    by (simp add: e n)
  show "owned_blocks (directory s' ! idx) = map int (put_blocks s f)"
    unfolding e by (rule owned_blocks_put_entry)
  show "c_str (file_name (directory s' ! idx)) = name"
    using regex_match_no_NUL [OF name(1)] by (simp add: e c_str_terminated)
  show "\<forall>j < DIRECTORY_SIZE. j \<noteq> idx \<longrightarrow> directory s' ! j = directory s ! j"
    unfolding s' using put_state_other [OF wf idx size space] by simp
qed

lemma blocks_needed_small:
  "n \<le> (MAX_FILE_BLOCKS - 1) * BLOCK_SIZE \<Longrightarrow> blocks_needed (int n) < MAX_FILE_BLOCKS"
  by (simp add: blocks_needed_def MAX_FILE_BLOCKS_eq BLOCK_SIZE_def)

lemma blocks_needed_large:
  "(MAX_FILE_BLOCKS - 1) * BLOCK_SIZE < n \<Longrightarrow> n \<le> MAX_FILE_SIZE \<Longrightarrow>
   blocks_needed (int n) = MAX_FILE_BLOCKS"
  by (simp add: blocks_needed_def MAX_FILE_BLOCKS_eq BLOCK_SIZE_def MAX_FILE_SIZE_def)

text \<open>
  C10: the loop of \<^verbatim>\<open>delete\<close> that frees the blocks of an entry ends without a fault only
  at an entry of the block list that is not above \<open>-1\<close>. For the entry that a successful
  \<^verbatim>\<open>put\<close> has written: when the file has at most 47 blocks, the list holds the sentinel and
  the loop ends with every index it reads inside the list; when the file has 48 blocks
  (more than 47 blocks of bytes), the list holds no sentinel and the loop reads
  \<^verbatim>\<open>blocks[48]\<close>, outside the list.
\<close>

theorem delete_loop_sentinel:
  assumes "wf_fs s" "host name = Some f" "length (contents f) \<le> MAX_FILE_SIZE"
    "put s host now (Some name) = Inr (PutOk, s')" "get_new_file_entry s = int idx"
  shows
    "(\<forall>s2. delete_loop idx 0 (blocks (directory s' ! idx) ! 0) s' = Inr s2 \<longrightarrow>
        (\<exists>k < MAX_FILE_BLOCKS. blocks (directory s' ! idx) ! k \<le> - 1)) \<and>
     (length (contents f) \<le> (MAX_FILE_BLOCKS - 1) * BLOCK_SIZE \<longrightarrow>
        NEGATIVE \<in> set (blocks (directory s' ! idx)) \<and>
        (\<exists>s2. delete_loop idx 0 (blocks (directory s' ! idx) ! 0) s' = Inr s2)) \<and>
     ((MAX_FILE_BLOCKS - 1) * BLOCK_SIZE < length (contents f) \<longrightarrow>
        NEGATIVE \<notin> set (blocks (directory s' ! idx)) \<and>
        delete_loop idx 0 (blocks (directory s' ! idx) ! 0) s' =
          Inl (BlocksIndexOutOfRange MAX_FILE_BLOCKS)) \<and>
     ((\<forall>j < idx. c_str (file_name (directory s ! j)) \<noteq> name) \<longrightarrow>
        delete s' (Some name) =
          (if length (contents f) \<le> (MAX_FILE_BLOCKS - 1) * BLOCK_SIZE
           then Inr (DeleteOk, delete_state s' idx)
           else Inl (BlocksIndexOutOfRange MAX_FILE_BLOCKS)))"
proof -
  note e = put_entry_delete [OF assms]
  let ?B = "blocks (directory s' ! idx)"
  let ?bs = "put_blocks s f"
  have len: "idx < length (directory s')" "length ?B = MAX_FILE_BLOCKS"
    using e(1,2) by (simp_all add: wf_fs_def wf_inode_def list_all_length)
  have run: "takeWhile (\<lambda>b. - 1 < b) (drop 0 ?B) = map int ?bs"
    using e(4) by (simp add: owned_blocks_def)
  have bound: "\<forall>b \<in> set (map int ?bs). b < int TOTAL_BLOCKS"
    using put_blocks_bound [of _ s f] by auto
  have bound': "\<forall>b \<in> set (owned_blocks (directory s' ! idx)). b < int TOTAL_BLOCKS"
    using bound by (simp add: e(4))
  have only: "\<forall>s2. delete_loop idx 0 (?B ! 0) s' = Inr s2 \<longrightarrow>
        (\<exists>k < MAX_FILE_BLOCKS. ?B ! k \<le> - 1)"
  proof (intro allI impI)
    fix s2 assume "delete_loop idx 0 (?B ! 0) s' = Inr s2"
    from delete_loop_Inr_sentinel [OF this refl len(1)]
    show "\<exists>k < MAX_FILE_BLOCKS. ?B ! k \<le> - 1"
      by (auto simp: MAX_FILE_BLOCKS_eq)
  qed
  have small: "NEGATIVE \<in> set ?B \<and> (\<exists>s2. delete_loop idx 0 (?B ! 0) s' = Inr s2)"
    if "length (contents f) \<le> (MAX_FILE_BLOCKS - 1) * BLOCK_SIZE"
  proof -
    have n: "blocks_needed (int (length (contents f))) < MAX_FILE_BLOCKS"
      using that by (rule blocks_needed_small)
    then have "NEGATIVE \<in> set ?B"
      by (simp add: e(3))
    moreover have "\<exists>s2. delete_loop idx 0 (?B ! 0) s' = Inr s2"
      using delete_loop_ok [OF len run bound] n e(5) by simp
    ultimately show ?thesis ..
  qed
  have large: "NEGATIVE \<notin> set ?B \<and>
      delete_loop idx 0 (?B ! 0) s' = Inl (BlocksIndexOutOfRange MAX_FILE_BLOCKS)"
    if "(MAX_FILE_BLOCKS - 1) * BLOCK_SIZE < length (contents f)"
  proof -
    have n: "blocks_needed (int (length (contents f))) = MAX_FILE_BLOCKS"
      using that assms(3) by (rule blocks_needed_large)
    then have "NEGATIVE \<notin> set ?B"
      by (auto simp: e(3) NEGATIVE_def)
    moreover have "delete_loop idx 0 (?B ! 0) s' = Inl (BlocksIndexOutOfRange MAX_FILE_BLOCKS)"
      using delete_loop_no_sentinel [OF len run bound] n e(5) by (simp add: MAX_FILE_BLOCKS_eq)
    ultimately show ?thesis ..
  qed
  have del: "delete s' (Some name) =
          (if length (contents f) \<le> (MAX_FILE_BLOCKS - 1) * BLOCK_SIZE
           then Inr (DeleteOk, delete_state s' idx)
           else Inl (BlocksIndexOutOfRange MAX_FILE_BLOCKS))"
    if lower: "\<forall>j < idx. c_str (file_name (directory s ! j)) \<noteq> name"
  proof -
    have lower': "\<forall>j < idx. c_str (file_name (directory s' ! j)) \<noteq> name"
      using lower e(2,7) by simp
    show ?thesis
    proof (cases "length (contents f) \<le> (MAX_FILE_BLOCKS - 1) * BLOCK_SIZE")
      case True
      then have "length (owned_blocks (directory s' ! idx)) < MAX_FILE_BLOCKS"
        using blocks_needed_small [OF True] by (simp add: e(4,5))
      with True show ?thesis
        using delete_ok [OF e(1,2,6) lower' bound'] by simp
    next
      case False
      then have "length (owned_blocks (directory s' ! idx)) = MAX_FILE_BLOCKS"
        using blocks_needed_large [OF _ assms(3)] by (simp add: e(4,5))
      with False show ?thesis
        using delete_no_sentinel [OF e(1,2,6) lower' bound'] by simp
    qed
  qed
  show ?thesis
    using only small large del by blast
qed

theorem delete_loop_sentinel_witness:
  "wf_fs fs_init \<and>
   put fs_init (\<lambda>_. Some file_abc) 0 (Some ''a'') =
     Inr (PutOk, put_state fs_init file_abc ''a'' 0 0) \<and>
   NEGATIVE \<in> set (blocks (directory (put_state fs_init file_abc ''a'' 0 0) ! 0)) \<and>
   delete (put_state fs_init file_abc ''a'' 0 0) (Some ''a'') =
     Inr (DeleteOk, delete_state (put_state fs_init file_abc ''a'' 0 0) 0) \<and>
   put fs_init (\<lambda>_. Some file_big) 0 (Some ''a'') =
     Inr (PutOk, put_state fs_init file_big ''a'' 0 0) \<and>
   NEGATIVE \<notin> set (blocks (directory (put_state fs_init file_big ''a'' 0 0) ! 0)) \<and>
   delete_loop 0 0 (blocks (directory (put_state fs_init file_big ''a'' 0 0) ! 0) ! 0)
       (put_state fs_init file_big ''a'' 0 0) = Inl (BlocksIndexOutOfRange 48) \<and>
   delete (put_state fs_init file_big ''a'' 0 0) (Some ''a'') = Inl (BlocksIndexOutOfRange 48)"
proof -
  note small = delete_loop_sentinel [OF wf_fs_init _ _ put_init_abc, where f = file_abc and idx = 0]
  note large = delete_loop_sentinel [OF wf_fs_init _ _ put_init_big, where f = file_big and idx = 0]
  show ?thesis
    using small large
    by (simp add: wf_fs_init put_init_abc put_init_big contents_abc contents_big
        get_new_file_entry_init MAX_FILE_SIZE_def MAX_FILE_BLOCKS_eq BLOCK_SIZE_def)
qed

text \<open>
  C4 (amended): \<^verbatim>\<open>delete\<close> of a name acts on the lowest slot whose name field holds it.
  When the block list of that slot holds a sentinel, \<^verbatim>\<open>delete\<close> marks every block of the
  list before the sentinel free and sets the first byte of that block to 0, leaving its
  other bytes; it sets \<open>used\<close>, the size and the time to 0 and the name to the empty string;
  it overwrites each list entry before the sentinel with 0 and leaves the rest of the list;
  every other block and every other slot is unchanged.
\<close>

theorem delete_postcondition:
  assumes "wf_fs s" "i < DIRECTORY_SIZE"
    "c_str (file_name (directory s ! i)) = name"
    "\<forall>j < i. c_str (file_name (directory s ! j)) \<noteq> name"
    "\<forall>b \<in> set (owned_blocks (directory s ! i)). b < int TOTAL_BLOCKS"
    "length (owned_blocks (directory s ! i)) < MAX_FILE_BLOCKS"
  shows "\<exists>s'. delete s (Some name) = Inr (DeleteOk, s') \<and>
     (\<forall>b < TOTAL_BLOCKS. int b \<in> set (owned_blocks (directory s ! i)) \<longrightarrow>
        used_space s' ! b = UNSET \<and> file_data s' ! b = (file_data s ! b)[0 := 0]) \<and>
     (\<forall>b < TOTAL_BLOCKS. int b \<notin> set (owned_blocks (directory s ! i)) \<longrightarrow>
        used_space s' ! b = used_space s ! b \<and> file_data s' ! b = file_data s ! b) \<and>
     used (directory s' ! i) = UNSET \<and> c_str (file_name (directory s' ! i)) = [] \<and>
     size_bytes (directory s' ! i) = 0 \<and> time_created (directory s' ! i) = 0 \<and>
     blocks (directory s' ! i) =
       replicate (length (owned_blocks (directory s ! i))) UNSET @
       drop (length (owned_blocks (directory s ! i))) (blocks (directory s ! i)) \<and>
     (\<forall>j < DIRECTORY_SIZE. j \<noteq> i \<longrightarrow> directory s' ! j = directory s ! j)"
proof -
  let ?run = "owned_blocks (directory s ! i)"
  let ?s' = "delete_state s i"
  have del: "delete s (Some name) = Inr (DeleteOk, ?s')"
    using assms by (rule delete_ok)
  have len: "length (directory s) = DIRECTORY_SIZE" "length (used_space s) = TOTAL_BLOCKS"
    "length (file_data s) = TOTAL_BLOCKS" "0 < length (file_name (directory s ! i))"
    using assms(1,2) by (simp_all add: wf_fs_def wf_inode_def list_all_length FILE_NAME_FIELD_def)
  have nonneg: "\<forall>b \<in> set ?run. 0 \<le> b"
    using owned_blocks_nonneg by blast
  have us: "used_space ?s' ! b = (if int b \<in> set ?run then UNSET else used_space s ! b)"
    if "b < TOTAL_BLOCKS" for b
    using that len(2) clear_space_nth [OF nonneg, of b "used_space s"]
    by (simp add: delete_state_def Let_def)
  have fd: "file_data ?s' ! b = (if int b \<in> set ?run then (file_data s ! b)[0 := 0] else file_data s ! b)"
    if "b < TOTAL_BLOCKS" for b
    using that len(3) clear_data_nth [OF nonneg, of b "file_data s"]
    by (simp add: delete_state_def Let_def)
  have e: "directory ?s' ! i =
      \<lparr>used = UNSET, file_name = (file_name (directory s ! i))[0 := NUL], size_bytes = 0,
       time_created = 0,
       blocks = replicate (length ?run) UNSET @ drop (length ?run) (blocks (directory s ! i))\<rparr>"
    using assms(2) len(1) by (simp add: delete_state_def Let_def)
  have other: "directory ?s' ! j = directory s ! j" if "j \<noteq> i" for j
    using that by (simp add: delete_state_def Let_def)
  have "c_str (file_name (directory ?s' ! i)) = []"
    using len(4) by (simp add: e c_str_cleared)
  then show ?thesis
    using del us fd other by (intro exI [of _ ?s']) (simp add: e)
qed

lemma free_blocks_fs_init: "free_blocks (used_space fs_init) = [0..<TOTAL_BLOCKS]"
  by (simp add: fs_init_def free_blocks_init)

lemma put_blocks_init_abc: "put_blocks fs_init file_abc = [0]"
  by (simp add: put_blocks_def contents_abc blocks_needed_def free_blocks_fs_init
      TOTAL_BLOCKS_eq)

lemma owned_blocks_one:
  "owned_blocks \<lparr>used = u, file_name = n, size_bytes = z, time_created = t,
       blocks = 0 # replicate m NEGATIVE\<rparr> = [0]"
  by (simp add: owned_blocks_def NEGATIVE_def takeWhile_replicate)

lemma put_state_init_abc_facts:
  "wf_fs (put_state fs_init file_abc ''a'' 0 0)"
  "directory (put_state fs_init file_abc ''a'' 0 0) ! 0 =
     \<lparr>used = SET, file_name = ''a'' @ NUL # replicate 253 NUL, size_bytes = 3, time_created = 0,
      blocks = 0 # replicate 47 NEGATIVE\<rparr>"
  "file_data (put_state fs_init file_abc ''a'' 0 0) ! 0 = [1, 2, 3] @ replicate 2045 0"
proof -
  have size: "length (contents file_abc) \<le> MAX_FILE_SIZE"
    "length (contents file_abc) \<le> disk_availability fs_init"
    by (simp_all add: contents_abc MAX_FILE_SIZE_def disk_availability_init FILE_SYSTEM_SIZE_def)
  have idx: "0 < DIRECTORY_SIZE"
    by (simp add: DIRECTORY_SIZE_def)
  show "wf_fs (put_state fs_init file_abc ''a'' 0 0)"
    using wf_fs_init idx _ size by (rule wf_put_state) (simp add: FILE_NAME_FIELD_def)
  show "directory (put_state fs_init file_abc ''a'' 0 0) ! 0 =
     \<lparr>used = SET, file_name = ''a'' @ NUL # replicate 253 NUL, size_bytes = 3, time_created = 0,
      blocks = 0 # replicate 47 NEGATIVE\<rparr>"
    using put_state_entry [OF wf_fs_init idx size, of "''a''" 0]
    by (simp add: put_blocks_init_abc contents_abc directory_init_nth idx inode_init_def
        FILE_NAME_FIELD_def MAX_FILE_BLOCKS_eq)
  have "file_data fs_init ! 0 = replicate 2048 0"
    by (simp add: fs_init_def TOTAL_BLOCKS_eq BLOCK_SIZE_def)
  then show "file_data (put_state fs_init file_abc ''a'' 0 0) ! 0 = [1, 2, 3] @ replicate 2045 0"
    using put_state_block [OF wf_fs_init, of 0 file_abc "''a''" 0 0]
    by (simp add: put_blocks_init_abc contents_abc BLOCK_SIZE_def)
qed

theorem delete_postcondition_witness:
  "wf_fs (put_state fs_init file_abc ''a'' 0 0) \<and>
   owned_blocks (directory (put_state fs_init file_abc ''a'' 0 0) ! 0) = [0] \<and>
   (\<exists>s'. delete (put_state fs_init file_abc ''a'' 0 0) (Some ''a'') = Inr (DeleteOk, s') \<and>
      used_space s' ! 0 = UNSET \<and> file_data s' ! 0 = 0 # 2 # 3 # replicate 2045 0 \<and>
      used (directory s' ! 0) = UNSET \<and> c_str (file_name (directory s' ! 0)) = [] \<and>
      size_bytes (directory s' ! 0) = 0 \<and> time_created (directory s' ! 0) = 0 \<and>
      blocks (directory s' ! 0) = UNSET # replicate 47 NEGATIVE)"
proof -
  let ?s = "put_state fs_init file_abc ''a'' 0 0"
  note f = put_state_init_abc_facts
  have owned: "owned_blocks (directory ?s ! 0) = [0]"
    using owned_blocks_put_entry [of _ _ _ _ "[0]" 47] by (simp add: f(2))
  have name: "c_str (file_name (directory ?s ! 0)) = ''a''"
    by (simp add: f(2) c_str_def NUL_def)
  from delete_postcondition [OF f(1), of 0 "''a''"] owned name
  obtain s' where s': "delete ?s (Some ''a'') = Inr (DeleteOk, s')"
    "\<forall>b < TOTAL_BLOCKS. int b \<in> set (owned_blocks (directory ?s ! 0)) \<longrightarrow>
        used_space s' ! b = UNSET \<and> file_data s' ! b = (file_data ?s ! b)[0 := 0]"
    "used (directory s' ! 0) = UNSET" "c_str (file_name (directory s' ! 0)) = []"
    "size_bytes (directory s' ! 0) = 0" "time_created (directory s' ! 0) = 0"
    "blocks (directory s' ! 0) = replicate (length (owned_blocks (directory ?s ! 0))) UNSET @
       drop (length (owned_blocks (directory ?s ! 0))) (blocks (directory ?s ! 0))"
    by (auto simp: DIRECTORY_SIZE_def TOTAL_BLOCKS_eq MAX_FILE_BLOCKS_eq)
  have "used_space s' ! 0 = UNSET \<and> file_data s' ! 0 = (file_data ?s ! 0)[0 := 0]"
    using s'(2) [rule_format, of 0] by (simp add: owned TOTAL_BLOCKS_eq)
  then show ?thesis
    using s' by (simp add: f owned_blocks_one)
qed

text \<open>
  After \<^verbatim>\<open>put\<close> of a three-byte file into the initial state and \<^verbatim>\<open>delete\<close> of it, the first
  entry of the block list is 0, not the sentinel, and the second byte of block 0 is still
  the second byte of the file.
\<close>

theorem delete_postcondition_counterexample:
  "put fs_init (\<lambda>_. Some file_abc) 0 (Some ''a'') =
     Inr (PutOk, put_state fs_init file_abc ''a'' 0 0) \<and>
   delete (put_state fs_init file_abc ''a'' 0 0) (Some ''a'') =
     Inr (DeleteOk, delete_state (put_state fs_init file_abc ''a'' 0 0) 0) \<and>
   blocks (directory (delete_state (put_state fs_init file_abc ''a'' 0 0) 0) ! 0) ! 0 = 0 \<and>
   blocks (directory (delete_state (put_state fs_init file_abc ''a'' 0 0) 0) ! 0)
     \<noteq> replicate MAX_FILE_BLOCKS NEGATIVE \<and>
   file_data (delete_state (put_state fs_init file_abc ''a'' 0 0) 0) ! 0 ! 1 = 2"
proof -
  let ?s = "put_state fs_init file_abc ''a'' 0 0"
  note f = put_state_init_abc_facts
  have owned: "owned_blocks (directory ?s ! 0) = [0]"
    using owned_blocks_put_entry [of _ _ _ _ "[0]" 47] by (simp add: f(2))
  have name: "c_str (file_name (directory ?s ! 0)) = ''a''"
    by (simp add: f(2) c_str_def NUL_def)
  have del: "delete ?s (Some ''a'') = Inr (DeleteOk, delete_state ?s 0)"
    using delete_ok [OF f(1), of 0 "''a''"] owned name
    by (simp add: DIRECTORY_SIZE_def TOTAL_BLOCKS_eq MAX_FILE_BLOCKS_eq)
  have len: "0 < length (directory ?s)" "0 < length (file_data ?s)"
    using f(1) by (simp_all add: wf_fs_def DIRECTORY_SIZE_def TOTAL_BLOCKS_eq)
  have bl: "blocks (directory (delete_state ?s 0) ! 0) = UNSET # replicate 47 NEGATIVE"
    using len(1) by (simp add: delete_state_def Let_def owned_blocks_one f(2))
  have fd: "file_data (delete_state ?s 0) ! 0 = 0 # 2 # 3 # replicate 2045 0"
    using len(2) by (simp add: delete_state_def Let_def owned_blocks_one f(2,3))
  have "replicate MAX_FILE_BLOCKS NEGATIVE = NEGATIVE # replicate 47 NEGATIVE"
    using replicate_Suc [of 47 NEGATIVE] by (simp add: MAX_FILE_BLOCKS_eq)
  then have ne: "UNSET # replicate 47 NEGATIVE \<noteq> replicate MAX_FILE_BLOCKS NEGATIVE"
    by (simp add: UNSET_def NEGATIVE_def)
  show ?thesis
    using ne by (simp add: put_init_abc del bl fd UNSET_def)
qed

subsection \<open>What the copy loop leaves alone\<close>

lemma put_copy_frame:
  assumes "put_copy f idx copy_size offset counter s = Inr (ok, c', s')"
    "idx < length (directory s)"
  shows "length (directory s') = length (directory s) \<and>
         (\<forall>j. j \<noteq> idx \<longrightarrow> directory s' ! j = directory s ! j) \<and>
         used (directory s' ! idx) = used (directory s ! idx) \<and>
         file_name (directory s' ! idx) = file_name (directory s ! idx) \<and>
         size_bytes (directory s' ! idx) = size_bytes (directory s ! idx) \<and>
         time_created (directory s' ! idx) = time_created (directory s ! idx)"
  using assms
proof (induction f idx copy_size offset counter s rule: put_copy.induct)
  case (1 f idx copy_size offset counter s)
  show ?case
  proof (cases "0 < copy_size")
    case False
    with "1.prems" show ?thesis
      by (subst (asm) put_copy.simps) simp
  next
    case pos: True
    obtain chunk items eof where fr: "fread_block f offset = (chunk, items, eof)"
      by (cases "fread_block f offset") auto
    let ?b = "nat (get_free_block s)"
    let ?s1 = "s\<lparr>file_data := (file_data s)[?b := chunk @ drop (length chunk) (file_data s ! ?b)]\<rparr>"
    let ?s2 = "?s1\<lparr>directory := (directory s)[idx := (directory s ! idx)
                  \<lparr>blocks := (blocks (directory s ! idx))[counter := get_free_block s]\<rparr>],
               used_space := (used_space s)[?b := SET]\<rparr>"
    have inr: "\<not> (get_free_block s < 0 \<or> int TOTAL_BLOCKS \<le> get_free_block s)"
      using "1.prems"(1) pos by (subst (asm) put_copy.simps) (auto simp: Let_def)
    show ?thesis
    proof (cases "items = 0 \<and> \<not> eof")
      case True
      then have "s' = ?s1"
        using "1.prems"(1) pos inr
        by (subst (asm) put_copy.simps) (simp add: Let_def fr)
      then show ?thesis by simp
    next
      case False
      have cnt: "\<not> MAX_FILE_BLOCKS \<le> counter"
        using "1.prems"(1) pos inr False
        by (subst (asm) put_copy.simps) (auto simp: Let_def fr)
      have rec: "put_copy f idx (copy_size - int BLOCK_SIZE) (offset + BLOCK_SIZE) (counter + 1) ?s2 =
          Inr (ok, c', s')"
        using "1.prems"(1) pos inr False cnt
        by (subst (asm) put_copy.simps) (simp add: Let_def fr)
      have "idx < length (directory ?s2)"
        using "1.prems"(2) by simp
      from "1.IH" [OF pos refl inr fr [symmetric] refl refl refl False cnt] rec this
      have "length (directory s') = length (directory ?s2) \<and>
         (\<forall>j. j \<noteq> idx \<longrightarrow> directory s' ! j = directory ?s2 ! j) \<and>
         used (directory s' ! idx) = used (directory ?s2 ! idx) \<and>
         file_name (directory s' ! idx) = file_name (directory ?s2 ! idx) \<and>
         size_bytes (directory s' ! idx) = size_bytes (directory ?s2 ! idx) \<and>
         time_created (directory s' ! idx) = time_created (directory ?s2 ! idx)"
        by simp
      then show ?thesis
        using "1.prems"(2) by simp
    qed
  qed
qed

text \<open>What a \<^verbatim>\<open>put\<close> that returns without a message has done.\<close>

lemma put_PutOk_raw:
  assumes "wf_fs s" "put s host now arg = Inr (PutOk, s')"
  obtains name f idx c s1 nm where
    "arg = Some name" "regex_match name" "host name = Some f"
    "size_cast (length (contents f)) \<le> MAX_FILE_SIZE"
    "size_cast (length (contents f)) \<le> disk_availability s"
    "get_new_file_entry s = int idx" "idx < DIRECTORY_SIZE"
    "used (directory s ! idx) = 0" "\<forall>j < idx. used (directory s ! j) \<noteq> 0"
    "put_copy f idx (long_of_ulong (size_cast (length (contents f)))) 0 0 s = Inr (True, c, s1)"
    "memcpy_field (file_name (directory s1 ! idx)) (name @ [NUL]) (length name + 1) = Inr nm"
    "s' = s1\<lparr>directory := (directory s1)[idx := (directory s1 ! idx)
             \<lparr>blocks := pad_blocks c (blocks (directory s1 ! idx)), file_name := nm,
              size_bytes := size_cast (length (contents f)), time_created := now,
              used := SET\<rparr>]\<rparr>"
proof -
  from assms(2) obtain name where arg: "arg = Some name"
    by (cases arg) (auto simp: put_def)
  from assms(2) arg have name: "regex_match name"
    by (auto simp: put_def Let_def split: if_splits)
  from assms(2) arg obtain f where host: "host name = Some f"
    by (cases "host name") (auto simp: put_def Let_def split: if_splits)
  let ?fsz = "size_cast (length (contents f))"
  from assms(2) arg host have size: "?fsz \<le> MAX_FILE_SIZE" "?fsz \<le> disk_availability s"
    and nofull: "get_new_file_entry s \<noteq> - 1"
    by (auto simp: put_def Let_def split: if_splits)
  from nofull obtain idx where idx: "get_new_file_entry s = int idx" "idx < DIRECTORY_SIZE"
    "used (directory s ! idx) = 0" "\<forall>j < idx. used (directory s ! j) \<noteq> 0"
    by (cases s rule: get_new_file_entry_cases) auto
  from assms(2) arg host name size idx(1)
  obtain c s1 where copy: "put_copy f idx (long_of_ulong ?fsz) 0 0 s = Inr (True, c, s1)"
    by (auto simp: put_def Let_def split: if_splits sum.splits)
  from assms(2) arg host name size idx(1) copy
  obtain nm where nm: "memcpy_field (file_name (directory s1 ! idx)) (name @ [NUL]) (length name + 1) = Inr nm"
    and s': "s' = s1\<lparr>directory := (directory s1)[idx := (directory s1 ! idx)
             \<lparr>blocks := pad_blocks c (blocks (directory s1 ! idx)), file_name := nm,
              size_bytes := ?fsz, time_created := now, used := SET\<rparr>]\<rparr>"
    by (auto simp: put_def Let_def split: if_splits sum.splits)
  show ?thesis
    using that [OF arg name host size idx copy nm s'] .
qed

lemma free_blocks_copy_steps:
  assumes "length (used_space s) = TOTAL_BLOCKS" "n \<le> length (free_blocks (used_space s))"
  shows "free_blocks (used_space (copy_steps f idx offset counter
            (take n (free_blocks (used_space s))) s)) = drop n (free_blocks (used_space s))"
  using assms
proof (induction n arbitrary: s offset counter)
  case 0
  then show ?case by simp
next
  case (Suc n)
  then obtain b rest where fb: "free_blocks (used_space s) = b # rest"
    by (cases "free_blocks (used_space s)") auto
  let ?s2 = "copy_step f idx offset counter b s"
  have us2: "used_space ?s2 = (used_space s)[b := SET]"
    by (simp add: copy_step_def Let_def)
  have fb2: "free_blocks (used_space ?s2) = rest"
    using free_blocks_alloc [OF fb Suc.prems(1)] us2 by simp
  have "free_blocks (used_space (copy_steps f idx (offset + BLOCK_SIZE) (counter + 1)
            (take n (free_blocks (used_space ?s2))) ?s2)) = drop n (free_blocks (used_space ?s2))"
    using Suc.prems fb fb2 by (intro Suc.IH) (simp_all add: us2)
  then show ?case
    by (simp add: fb fb2)
qed

lemma disk_availability_put_state:
  assumes "wf_fs s" "length (contents f) \<le> disk_availability s"
  shows "disk_availability (put_state s f name now idx) =
         disk_availability s - BLOCK_SIZE * blocks_needed (int (length (contents f)))"
proof -
  have "blocks_needed (int (length (contents f))) \<le> length (free_blocks (used_space s))"
    using assms(2) by (simp add: disk_availability_eq blocks_needed_free)
  then have "free_blocks (used_space (put_state s f name now idx)) =
      drop (blocks_needed (int (length (contents f)))) (free_blocks (used_space s))"
    using assms(1) free_blocks_copy_steps [of s "blocks_needed (int (length (contents f)))" f idx 0 0]
    by (simp add: put_state_used_space put_blocks_def wf_fs_def)
  then show ?thesis
    by (simp add: disk_availability_eq right_diff_distrib')
qed

subsection \<open>The name field\<close>

lemma put_no_name_overflow:
  assumes "wf_fs s" "length name < FILE_NAME_FIELD"
  shows "put s host now (Some name) \<noteq> Inl (FileNameOverflow i)"
proof (cases "host name")
  case None
  then show ?thesis by (simp add: put_def)
next
  case (Some f)
  let ?fsz = "size_cast (length (contents f))"
  show ?thesis
  proof (cases s rule: get_new_file_entry_cases)
    case full
    with Some show ?thesis by (simp add: put_def Let_def)
  next
    case (slot idx)
    show ?thesis
    proof (cases "put_copy f idx (long_of_ulong ?fsz) 0 0 s")
      case (Inl e)
      then have "e \<noteq> FileNameOverflow i"
        using put_copy_no_name_fault [of f idx "long_of_ulong ?fsz" 0 0 s i] by auto
      with Some slot(1) Inl show ?thesis
        by (simp add: put_def Let_def)
    next
      case (Inr r)
      obtain ok c s1 where r: "r = (ok, c, s1)"
        by (cases r) auto
      have "wf_fs s1"
        using put_copy_wf [OF assms(1) slot(2)] Inr r by blast
      then have "length (file_name (directory s1 ! idx)) = FILE_NAME_FIELD"
        using slot(2) by (simp add: wf_fs_def wf_inode_def list_all_length)
      then have "\<exists>nm. memcpy_field (file_name (directory s1 ! idx)) (name @ [NUL]) (length name + 1) = Inr nm"
        using assms(2) by (simp add: memcpy_field_def)
      with Some slot(1) Inr r show ?thesis
        by (auto simp: put_def Let_def)
    qed
  qed
qed

lemma put_name_field:
  assumes "wf_fs s" "put s host now (Some name) = Inr (PutOk, s')"
  shows "take (length name + 1) (file_name (directory s' ! nat (get_new_file_entry s))) =
           name @ [NUL] \<and>
         drop (length name + 1) (file_name (directory s' ! nat (get_new_file_entry s))) =
           drop (length name + 1) (file_name (directory s ! nat (get_new_file_entry s)))"
proof -
  from assms obtain name' f idx c s1 nm where
    arg: "Some name = Some name'" and
    idx: "get_new_file_entry s = int idx" "idx < DIRECTORY_SIZE" and
    copy: "put_copy f idx (long_of_ulong (size_cast (length (contents f)))) 0 0 s = Inr (True, c, s1)" and
    nm: "memcpy_field (file_name (directory s1 ! idx)) (name' @ [NUL]) (length name' + 1) = Inr nm" and
    s': "s' = s1\<lparr>directory := (directory s1)[idx := (directory s1 ! idx)
             \<lparr>blocks := pad_blocks c (blocks (directory s1 ! idx)), file_name := nm,
              size_bytes := size_cast (length (contents f)), time_created := now,
              used := SET\<rparr>]\<rparr>"
    by (rule put_PutOk_raw) blast
  have len: "idx < length (directory s)"
    using assms(1) idx(2) by (simp add: wf_fs_def)
  note frame = put_copy_frame [OF copy len]
  have fn: "file_name (directory s' ! idx) = nm"
    using frame len by (simp add: s')
  have "\<not> length (file_name (directory s1 ! idx)) < length name + 1"
    and nm_eq: "nm = take (length name + 1) (name @ [NUL]) @
      drop (length name + 1) (file_name (directory s1 ! idx))"
    using nm arg by (auto simp: memcpy_field_def split: if_splits)
  then show ?thesis
    using frame by (simp add: idx(1) fn)
qed

text \<open>
  C9: \<^verbatim>\<open>put\<close> copies the name and its terminator, \<^verbatim>\<open>strlen(name) + 1\<close> characters, to the
  start of the 255-character field \<^verbatim>\<open>file_name\<close>. For a name of at most 254 characters
  every write is inside the field. A name of 255 characters passes the checks of \<^verbatim>\<open>put\<close>,
  and when the copy is reached its terminator is written at index 255, outside the field.
\<close>

theorem put_name_copy:
  assumes "wf_fs s" "regex_match name"
  shows "(length name < FILE_NAME_FIELD \<longrightarrow>
            (\<forall>i. put s host now (Some name) \<noteq> Inl (FileNameOverflow i)) \<and>
            (\<forall>s'. put s host now (Some name) = Inr (PutOk, s') \<longrightarrow>
               take (length name + 1) (file_name (directory s' ! nat (get_new_file_entry s))) =
                 name @ [NUL] \<and>
               drop (length name + 1) (file_name (directory s' ! nat (get_new_file_entry s))) =
                 drop (length name + 1) (file_name (directory s ! nat (get_new_file_entry s))))) \<and>
         (length name = FILE_NAME_FIELD \<and> host name = Some f \<and> readable f \<and>
          length (contents f) \<le> MAX_FILE_SIZE \<and> length (contents f) \<le> disk_availability s \<and>
          get_new_file_entry s \<noteq> - 1 \<longrightarrow>
            \<not> MAX_FILE_NAME < length name \<and>
            (name @ [NUL]) ! FILE_NAME_FIELD = NUL \<and>
            put s host now (Some name) = Inl (FileNameOverflow FILE_NAME_FIELD))"
proof (intro conjI impI allI)
  fix i assume "length name < FILE_NAME_FIELD"
  with assms(1) show "put s host now (Some name) \<noteq> Inl (FileNameOverflow i)"
    by (rule put_no_name_overflow)
next
  fix s' assume "put s host now (Some name) = Inr (PutOk, s')"
  from put_name_field [OF assms(1) this]
  show "take (length name + 1) (file_name (directory s' ! nat (get_new_file_entry s))) = name @ [NUL]"
    and "drop (length name + 1) (file_name (directory s' ! nat (get_new_file_entry s))) =
                 drop (length name + 1) (file_name (directory s ! nat (get_new_file_entry s)))"
    by simp_all
next
  assume a: "length name = FILE_NAME_FIELD \<and> host name = Some f \<and> readable f \<and>
          length (contents f) \<le> MAX_FILE_SIZE \<and> length (contents f) \<le> disk_availability s \<and>
          get_new_file_entry s \<noteq> - 1"
  then show "\<not> MAX_FILE_NAME < length name"
    by (simp add: MAX_FILE_NAME_def FILE_NAME_FIELD_def)
  from a show "(name @ [NUL]) ! FILE_NAME_FIELD = NUL"
    by (simp add: nth_append)
  from a obtain idx where "get_new_file_entry s = int idx"
    by (cases s rule: get_new_file_entry_cases) auto
  with a show "put s host now (Some name) = Inl (FileNameOverflow FILE_NAME_FIELD)"
    using put_copied [where s = s and host = host and name = name and f = f and idx = idx] assms
    by simp
qed

lemma regex_match_255: "regex_match name_255"
  by (simp add: regex_match_def name_255_def list_all_iff name_char_def)

theorem put_name_copy_witness:
  "wf_fs fs_init \<and> regex_match ''a'' \<and> regex_match name_255 \<and> length name_255 = 255 \<and>
   put fs_init (\<lambda>_. Some file_abc) 0 (Some ''a'') =
     Inr (PutOk, put_state fs_init file_abc ''a'' 0 0) \<and>
   take 2 (file_name (directory (put_state fs_init file_abc ''a'' 0 0) ! 0)) = ''a'' @ [NUL] \<and>
   put fs_init (\<lambda>_. Some file_abc) 0 (Some name_255) = Inl (FileNameOverflow 255)"
proof -
  note short = put_name_copy [OF wf_fs_init regex_match_a, of "\<lambda>_. Some file_abc" 0 file_abc]
  note long = put_name_copy [OF wf_fs_init regex_match_255, of "\<lambda>_. Some file_abc" 0 file_abc]
  have "take 2 (file_name (directory (put_state fs_init file_abc ''a'' 0 0) ! 0)) = ''a'' @ [NUL]"
    using short
    by (simp add: put_init_abc get_new_file_entry_init FILE_NAME_FIELD_def numeral_2_eq_2)
  moreover have "put fs_init (\<lambda>_. Some file_abc) 0 (Some name_255) = Inl (FileNameOverflow 255)"
    using long
    by (simp add: name_255_def readable_abc contents_abc disk_availability_init
        get_new_file_entry_init MAX_FILE_SIZE_def FILE_SYSTEM_SIZE_def FILE_NAME_FIELD_def)
  ultimately show ?thesis
    using regex_match_255 by (simp add: wf_fs_init regex_match_a put_init_abc name_255_def)
qed

lemma contents_xyz: "contents file_xyz = [9, 8, 7]"
  by (simp add: file_xyz_def)

lemma readable_xyz: "readable file_xyz"
  by (simp add: readable_def file_xyz_def)

lemma get_new_file_entry_eq:
  assumes "i < DIRECTORY_SIZE" "used (directory s ! i) = 0"
    "\<forall>j < i. used (directory s ! j) \<noteq> 0"
  shows "get_new_file_entry s = int i"
proof (cases s rule: get_new_file_entry_cases)
  case full
  with assms show ?thesis by simp
next
  case (slot k)
  with assms have "\<not> k < i" "\<not> i < k" by auto
  with slot show ?thesis by simp
qed

subsection \<open>The state after the first put of the examples\<close>

lemma put_state_init_next:
  assumes "regex_match name" "length name < FILE_NAME_FIELD"
    "length (contents f) \<le> MAX_FILE_SIZE"
  shows "get_new_file_entry (put_state fs_init f name now 0) = 1"
    "disk_availability (put_state fs_init f name now 0) =
       FILE_SYSTEM_SIZE - BLOCK_SIZE * blocks_needed (int (length (contents f)))"
    "wf_fs (put_state fs_init f name now 0)"
    "used (directory (put_state fs_init f name now 0) ! 0) = SET"
    "c_str (file_name (directory (put_state fs_init f name now 0) ! 0)) = name"
    "\<forall>j. 0 < j \<and> j < DIRECTORY_SIZE \<longrightarrow>
       directory (put_state fs_init f name now 0) ! j = inode_init"
proof -
  let ?s = "put_state fs_init f name now 0"
  have size: "length (contents f) \<le> MAX_FILE_SIZE"
    "length (contents f) \<le> disk_availability fs_init"
    using assms(3) by (simp_all add: MAX_FILE_SIZE_def disk_availability_init FILE_SYSTEM_SIZE_def)
  have idx: "0 < DIRECTORY_SIZE"
    by (simp add: DIRECTORY_SIZE_def)
  show wf: "wf_fs ?s"
    using wf_fs_init idx assms(2) size by (rule wf_put_state)
  have e: "directory ?s ! 0 =
     \<lparr>used = SET,
      file_name = name @ NUL # drop (length name + 1) (file_name (directory fs_init ! 0)),
      size_bytes = length (contents f), time_created = now,
      blocks = map int (put_blocks fs_init f) @
               replicate (MAX_FILE_BLOCKS - length (put_blocks fs_init f)) NEGATIVE\<rparr>"
    using wf_fs_init idx size by (rule put_state_entry)
  show used: "used (directory ?s ! 0) = SET"
    by (simp add: e)
  show "c_str (file_name (directory ?s ! 0)) = name"
    using regex_match_no_NUL [OF assms(1)] by (simp add: e c_str_terminated)
  show other: "\<forall>j. 0 < j \<and> j < DIRECTORY_SIZE \<longrightarrow> directory ?s ! j = inode_init"
    using put_state_other [OF wf_fs_init idx size, of _ name now]
    by (simp add: directory_init_nth)
  have "used (directory ?s ! 1) = 0"
    using other by (simp add: DIRECTORY_SIZE_def inode_init_def)
  then show "get_new_file_entry ?s = 1"
    using get_new_file_entry_eq [of 1 ?s] used by (simp add: DIRECTORY_SIZE_def SET_def)
  show "disk_availability ?s =
      FILE_SYSTEM_SIZE - BLOCK_SIZE * blocks_needed (int (length (contents f)))"
    using disk_availability_put_state [OF wf_fs_init size(2), of name now 0]
    by (simp add: disk_availability_init)
qed

lemma put_state_init_abc_next:
  "get_new_file_entry (put_state fs_init file_abc ''a'' now 0) = 1"
  "disk_availability (put_state fs_init file_abc ''a'' now 0) = FILE_SYSTEM_SIZE - BLOCK_SIZE"
  "wf_fs (put_state fs_init file_abc ''a'' now 0)"
  "used (directory (put_state fs_init file_abc ''a'' now 0) ! 0) = SET"
  "c_str (file_name (directory (put_state fs_init file_abc ''a'' now 0) ! 0)) = ''a''"
  "\<forall>j. 0 < j \<and> j < DIRECTORY_SIZE \<longrightarrow>
     directory (put_state fs_init file_abc ''a'' now 0) ! j = inode_init"
  using put_state_init_next [of "''a''" file_abc now]
  by (simp_all add: regex_match_a FILE_NAME_FIELD_def contents_abc MAX_FILE_SIZE_def
      blocks_needed_def)

subsection \<open>Names that are already stored\<close>

lemma put_beside_same_name:
  assumes wf: "wf_fs s" and name: "regex_match name" "length name < FILE_NAME_FIELD"
    and host: "host name = Some f" "readable f"
    and size: "length (contents f) \<le> MAX_FILE_SIZE" "length (contents f) \<le> disk_availability s"
    and slot: "get_new_file_entry s \<noteq> - 1"
    and dup: "j < DIRECTORY_SIZE" "used (directory s ! j) \<noteq> 0"
      "c_str (file_name (directory s ! j)) = name"
  shows "\<exists>s' idx. put s host now (Some name) = Inr (PutOk, s') \<and>
           idx < DIRECTORY_SIZE \<and> idx \<noteq> j \<and> get_new_file_entry s = int idx \<and>
           used (directory s ! idx) = 0 \<and> (\<forall>i < idx. used (directory s ! i) \<noteq> 0) \<and>
           (\<forall>i < DIRECTORY_SIZE. i \<noteq> idx \<longrightarrow> directory s' ! i = directory s ! i) \<and>
           used (directory s' ! idx) = SET \<and> c_str (file_name (directory s' ! idx)) = name \<and>
           used (directory s' ! j) \<noteq> 0 \<and> c_str (file_name (directory s' ! j)) = name"
proof -
  from slot obtain idx where idx: "get_new_file_entry s = int idx" "idx < DIRECTORY_SIZE"
    "used (directory s ! idx) = 0" "\<forall>i < idx. used (directory s ! i) \<noteq> 0"
    by (cases s rule: get_new_file_entry_cases) auto
  let ?s' = "put_state s f name now idx"
  have put: "put s host now (Some name) = Inr (PutOk, ?s')"
    using wf name host size idx(1) by (rule put_ok)
  have ne: "idx \<noteq> j"
    using idx(3) dup(2) by auto
  have e: "directory ?s' ! idx =
            \<lparr>used = SET,
             file_name = name @ NUL # drop (length name + 1) (file_name (directory s ! idx)),
             size_bytes = length (contents f), time_created = now,
             blocks = map int (put_blocks s f) @
                      replicate (MAX_FILE_BLOCKS - length (put_blocks s f)) NEGATIVE\<rparr>"
    using wf idx(2) size by (rule put_state_entry)
  have other: "\<forall>i < DIRECTORY_SIZE. i \<noteq> idx \<longrightarrow> directory ?s' ! i = directory s ! i"
    using put_state_other [OF wf idx(2) size] by simp
  have "c_str (file_name (directory ?s' ! idx)) = name"
    using regex_match_no_NUL [OF name(1)] by (simp add: e c_str_terminated)
  moreover have "directory ?s' ! j = directory s ! j"
    using other dup(1) ne by simp
  ultimately show ?thesis
    using put idx ne other dup by (intro exI [of _ ?s'] exI [of _ idx]) (simp add: e)
qed

lemma two_entries_same_name:
  "\<exists>s1 s2. put fs_init (\<lambda>_. Some file_abc) 0 (Some ''a'') = Inr (PutOk, s1) \<and>
     put s1 (\<lambda>_. Some file_xyz) 0 (Some ''a'') = Inr (PutOk, s2) \<and>
     used (directory s2 ! 0) = SET \<and> used (directory s2 ! 1) = SET \<and>
     c_str (file_name (directory s2 ! 0)) = ''a'' \<and> c_str (file_name (directory s2 ! 1)) = ''a''"
proof -
  let ?s1 = "put_state fs_init file_abc ''a'' 0 0"
  note n = put_state_init_abc_next [of 0]
  from put_beside_same_name [OF n(3) regex_match_a _ _ readable_xyz, where j = 0
      and host = "\<lambda>_. Some file_xyz" and now = 0]
  obtain s2 idx where "put ?s1 (\<lambda>_. Some file_xyz) 0 (Some ''a'') = Inr (PutOk, s2)"
    "get_new_file_entry ?s1 = int idx"
    "\<forall>i < DIRECTORY_SIZE. i \<noteq> idx \<longrightarrow> directory s2 ! i = directory ?s1 ! i"
    "used (directory s2 ! idx) = SET" "c_str (file_name (directory s2 ! idx)) = ''a''"
    "c_str (file_name (directory s2 ! 0)) = ''a''"
    using n
    by (auto simp: contents_xyz MAX_FILE_SIZE_def FILE_SYSTEM_SIZE_def BLOCK_SIZE_def
        FILE_NAME_FIELD_def DIRECTORY_SIZE_def SET_def)
  moreover from this have "idx = 1" "directory s2 ! 0 = directory ?s1 ! 0"
    using n(1) by (simp_all add: DIRECTORY_SIZE_def)
  ultimately show ?thesis
    using put_init_abc [of 0] n(4) by (intro exI [of _ ?s1] exI [of _ s2]) simp
qed

text \<open>
  C7: \<^verbatim>\<open>put\<close> does not look at the names in the directory. When a used entry already
  holds the name and every check of \<^verbatim>\<open>put\<close> passes, \<^verbatim>\<open>put\<close> returns without a message, writes
  the unused slot of lowest index and leaves every other slot, the entry of the same name
  among them, as it was. Two \<^verbatim>\<open>put\<close>s of one name into the initial state give two used
  entries with that name.
\<close>

theorem put_duplicate_names:
  assumes "wf_fs s" "regex_match name" "length name < FILE_NAME_FIELD"
    "host name = Some f" "readable f"
    "length (contents f) \<le> MAX_FILE_SIZE" "length (contents f) \<le> disk_availability s"
    "get_new_file_entry s \<noteq> - 1"
    "j < DIRECTORY_SIZE" "used (directory s ! j) \<noteq> 0" "c_str (file_name (directory s ! j)) = name"
  shows "(\<exists>s' idx. put s host now (Some name) = Inr (PutOk, s') \<and>
           idx < DIRECTORY_SIZE \<and> idx \<noteq> j \<and> get_new_file_entry s = int idx \<and>
           used (directory s ! idx) = 0 \<and> (\<forall>i < idx. used (directory s ! i) \<noteq> 0) \<and>
           (\<forall>i < DIRECTORY_SIZE. i \<noteq> idx \<longrightarrow> directory s' ! i = directory s ! i) \<and>
           used (directory s' ! idx) = SET \<and> c_str (file_name (directory s' ! idx)) = name \<and>
           used (directory s' ! j) \<noteq> 0 \<and> c_str (file_name (directory s' ! j)) = name) \<and>
         (\<exists>s1 s2. put fs_init (\<lambda>_. Some file_abc) 0 (Some ''a'') = Inr (PutOk, s1) \<and>
            put s1 (\<lambda>_. Some file_xyz) 0 (Some ''a'') = Inr (PutOk, s2) \<and>
            used (directory s2 ! 0) = SET \<and> used (directory s2 ! 1) = SET \<and>
            c_str (file_name (directory s2 ! 0)) = ''a'' \<and>
            c_str (file_name (directory s2 ! 1)) = ''a'')"
  using put_beside_same_name [where host = host, OF assms] two_entries_same_name by blast

theorem put_duplicate_names_witness:
  "wf_fs (put_state fs_init file_abc ''a'' 0 0) \<and> regex_match ''a'' \<and>
   used (directory (put_state fs_init file_abc ''a'' 0 0) ! 0) = SET \<and>
   c_str (file_name (directory (put_state fs_init file_abc ''a'' 0 0) ! 0)) = ''a'' \<and>
   (\<exists>s'. put (put_state fs_init file_abc ''a'' 0 0) (\<lambda>_. Some file_xyz) 0 (Some ''a'') =
       Inr (PutOk, s') \<and>
     get_new_file_entry (put_state fs_init file_abc ''a'' 0 0) = 1 \<and>
     used (directory s' ! 1) = SET \<and> c_str (file_name (directory s' ! 1)) = ''a'' \<and>
     used (directory s' ! 0) = SET \<and> c_str (file_name (directory s' ! 0)) = ''a'')"
proof -
  let ?s1 = "put_state fs_init file_abc ''a'' 0 0"
  note n = put_state_init_abc_next [of 0]
  from put_duplicate_names [OF n(3) regex_match_a _ _ readable_xyz, where j = 0
      and host = "\<lambda>_. Some file_xyz" and now = 0]
  obtain s' idx where s': "put ?s1 (\<lambda>_. Some file_xyz) 0 (Some ''a'') = Inr (PutOk, s')"
    "get_new_file_entry ?s1 = int idx"
    "\<forall>i < DIRECTORY_SIZE. i \<noteq> idx \<longrightarrow> directory s' ! i = directory ?s1 ! i"
    "used (directory s' ! idx) = SET" "c_str (file_name (directory s' ! idx)) = ''a''"
    "c_str (file_name (directory s' ! 0)) = ''a''"
    using n
    by (auto simp: contents_xyz MAX_FILE_SIZE_def FILE_SYSTEM_SIZE_def BLOCK_SIZE_def
        FILE_NAME_FIELD_def DIRECTORY_SIZE_def SET_def)
  moreover from this have "idx = 1" "directory s' ! 0 = directory ?s1 ! 0"
    using n(1) by (simp_all add: DIRECTORY_SIZE_def)
  ultimately show ?thesis
    using n by (simp add: regex_match_a)
qed

subsection \<open>Two entries of one name\<close>

lemma get_empty_file:
  "get_copy s index 0 counter out = Inr out"
  by (subst get_copy.simps) simp

lemma s_one_facts:
  "put fs_init (\<lambda>_. Some file_abc) 0 (Some ''a'') = Inr (PutOk, s_one)"
  "wf_fs s_one" "get_new_file_entry s_one = 1"
  "disk_availability s_one = FILE_SYSTEM_SIZE - BLOCK_SIZE"
  "c_str (file_name (directory s_one ! 0)) = ''a''"
  "\<forall>j. 0 < j \<and> j < DIRECTORY_SIZE \<longrightarrow> directory s_one ! j = inode_init"
  unfolding s_one_def using put_init_abc [of 0] put_state_init_abc_next [of 0] by simp_all

lemma s_two_facts:
  "put s_one (\<lambda>_. Some file_xyz) 0 (Some ''a'') = Inr (PutOk, s_two)"
  "c_str (file_name (directory s_two ! 0)) = ''a''"
  "c_str (file_name (directory s_two ! 1)) = ''a''"
  "\<forall>j. 1 < j \<and> j < DIRECTORY_SIZE \<longrightarrow> directory s_two ! j = inode_init"
  "get s_two (\<lambda>_. True) (Some ''a'') None = Inr (GetOk ''a'' [9, 8, 7])"
proof -
  note one = s_one_facts
  have size: "length (contents file_xyz) \<le> MAX_FILE_SIZE"
    "length (contents file_xyz) \<le> disk_availability s_one"
    by (simp_all add: contents_xyz one(4) MAX_FILE_SIZE_def FILE_SYSTEM_SIZE_def BLOCK_SIZE_def)
  have idx: "1 < DIRECTORY_SIZE"
    by (simp add: DIRECTORY_SIZE_def)
  have len: "length ''a'' < FILE_NAME_FIELD"
    by (simp add: FILE_NAME_FIELD_def)
  show "put s_one (\<lambda>_. Some file_xyz) 0 (Some ''a'') = Inr (PutOk, s_two)"
    unfolding s_two_def
    using put_ok [OF one(2) regex_match_a len _ readable_xyz size, of "\<lambda>_. Some file_xyz" 1 0]
    by (simp add: one(3))
  have e: "directory s_two ! 1 =
     \<lparr>used = SET,
      file_name = ''a'' @ NUL # drop (length ''a'' + 1) (file_name (directory s_one ! 1)),
      size_bytes = length (contents file_xyz), time_created = 0,
      blocks = map int (put_blocks s_one file_xyz) @
               replicate (MAX_FILE_BLOCKS - length (put_blocks s_one file_xyz)) NEGATIVE\<rparr>"
    unfolding s_two_def using one(2) idx size by (rule put_state_entry)
  have other: "directory s_two ! j = directory s_one ! j" if "j \<noteq> 1" for j
    unfolding s_two_def using put_state_other [OF one(2) idx size that] .
  show "c_str (file_name (directory s_two ! 0)) = ''a''"
    by (simp add: other one(5))
  show "c_str (file_name (directory s_two ! 1)) = ''a''"
    unfolding e by (simp add: c_str_def NUL_def)
  show "\<forall>j. 1 < j \<and> j < DIRECTORY_SIZE \<longrightarrow> directory s_two ! j = inode_init"
    using other one(6) by simp
  have "\<forall>j. 1 < j \<and> j < DIRECTORY_SIZE \<longrightarrow> c_str (file_name (directory s_one ! j)) \<noteq> ''a''"
    using one(6) by (simp add: c_str_init)
  then show "get s_two (\<lambda>_. True) (Some ''a'') None = Inr (GetOk ''a'' [9, 8, 7])"
    unfolding s_two_def
    using get_after_put [OF one(2) regex_match_a len idx size, of 0 "\<lambda>_. True" None]
    by (simp add: contents_xyz fopen_w_def)
qed

text \<open>
  C5 at a directory with two entries named \<^verbatim>\<open>a\<close>, reached by two \<^verbatim>\<open>put\<close>s: the file in
  slot 0 holds the bytes 1, 2, 3 and the one in slot 1 the bytes 9, 8, 7. The lookup of
  \<^verbatim>\<open>delete\<close> stops at slot 0, the lookup of \<^verbatim>\<open>get\<close> ends at slot 1 and \<^verbatim>\<open>get\<close> writes the
  bytes of slot 1.
\<close>

theorem get_resolves_last_match:
  "put fs_init (\<lambda>_. Some file_abc) 0 (Some ''a'') = Inr (PutOk, s_one) \<and>
   get s_one (\<lambda>_. True) (Some ''a'') None = Inr (GetOk ''a'' [1, 2, 3]) \<and>
   put s_one (\<lambda>_. Some file_xyz) 0 (Some ''a'') = Inr (PutOk, s_two) \<and>
   c_str (file_name (directory s_two ! 0)) = ''a'' \<and>
   c_str (file_name (directory s_two ! 1)) = ''a'' \<and>
   delete_lookup (directory s_two) ''a'' 0 = 0 \<and>
   get_lookup (directory s_two) ''a'' 0 (- 1) = 1 \<and>
   get s_two (\<lambda>_. True) (Some ''a'') None = Inr (GetOk ''a'' [9, 8, 7])"
proof -
  note one = s_one_facts and two = s_two_facts
  have none: "\<forall>j < DIRECTORY_SIZE. c_str (file_name (directory fs_init ! j)) \<noteq> ''a''"
    by (simp add: directory_init_nth c_str_init)
  have "\<forall>j. 0 < j \<and> j < DIRECTORY_SIZE \<longrightarrow> c_str (file_name (directory fs_init ! j)) \<noteq> ''a''"
    using none by simp
  then have g1: "get s_one (\<lambda>_. True) (Some ''a'') None = Inr (GetOk ''a'' [1, 2, 3])"
    unfolding s_one_def
    using get_after_put [OF wf_fs_init regex_match_a, of 0 file_abc 0 "\<lambda>_. True" None]
    by (simp add: contents_abc MAX_FILE_SIZE_def FILE_NAME_FIELD_def DIRECTORY_SIZE_def
        disk_availability_init FILE_SYSTEM_SIZE_def fopen_w_def)
  have d: "delete_lookup (directory s_two) ''a'' 0 = 0"
    using delete_lookup_first [of 0 "directory s_two" "''a''"] two(2)
    by (simp add: DIRECTORY_SIZE_def)
  have "\<forall>j. 1 < j \<and> j < DIRECTORY_SIZE \<longrightarrow> c_str (file_name (directory s_two ! j)) \<noteq> ''a''"
    using two(4) by (simp add: c_str_init)
  then have g: "get_lookup (directory s_two) ''a'' 0 (- 1) = 1"
    using get_lookup_last [of 1 "directory s_two" "''a''" "- 1"] two(3)
    by (simp add: DIRECTORY_SIZE_def)
  show ?thesis
    by (simp add: one(1) two(1,2,3,5) g1 d g del: One_nat_def)
qed

subsection \<open>An older entry of the same name in a higher slot\<close>

lemma contents_empty: "contents file_empty = []"
  by (simp add: file_empty_def)

lemma readable_empty: "readable file_empty"
  by (simp add: readable_def file_empty_def)

lemma regex_match_x: "regex_match ''x''"
  by (simp add: regex_match_def name_char_def)

lemma put_blocks_empty: "put_blocks s file_empty = []"
  by (simp add: put_blocks_def contents_empty blocks_needed_def)

lemma s_x_facts:
  "put fs_init (\<lambda>_. Some file_empty) 0 (Some ''x'') = Inr (PutOk, s_x)"
  "wf_fs s_x" "get_new_file_entry s_x = 1" "disk_availability s_x = FILE_SYSTEM_SIZE"
  "c_str (file_name (directory s_x ! 0)) = ''x''"
  "owned_blocks (directory s_x ! 0) = []"
  "\<forall>j. 0 < j \<and> j < DIRECTORY_SIZE \<longrightarrow> directory s_x ! j = inode_init"
proof -
  have len: "length ''x'' < FILE_NAME_FIELD" "length (contents file_empty) \<le> MAX_FILE_SIZE"
    "length (contents file_empty) \<le> disk_availability fs_init" "0 < DIRECTORY_SIZE"
    by (simp_all add: FILE_NAME_FIELD_def contents_empty DIRECTORY_SIZE_def)
  note n = put_state_init_next [OF regex_match_x len(1,2), of 0]
  show "put fs_init (\<lambda>_. Some file_empty) 0 (Some ''x'') = Inr (PutOk, s_x)"
    unfolding s_x_def
    using put_ok [OF wf_fs_init regex_match_x len(1) _ readable_empty len(2,3),
        of "\<lambda>_. Some file_empty" 0 0]
    by (simp add: get_new_file_entry_init)
  show "wf_fs s_x" "get_new_file_entry s_x = 1" "c_str (file_name (directory s_x ! 0)) = ''x''"
    "\<forall>j. 0 < j \<and> j < DIRECTORY_SIZE \<longrightarrow> directory s_x ! j = inode_init"
    unfolding s_x_def using n by simp_all
  show "disk_availability s_x = FILE_SYSTEM_SIZE"
    unfolding s_x_def using n(2) by (simp add: contents_empty blocks_needed_def)
  show "owned_blocks (directory s_x ! 0) = []"
    unfolding s_x_def put_state_entry [OF wf_fs_init len(4,2,3)]
    using owned_blocks_put_entry [where bs = "[]"] by (simp add: put_blocks_empty)
qed

lemma s_xa_facts:
  "put s_x (\<lambda>_. Some file_empty) 0 (Some ''a'') = Inr (PutOk, s_xa)"
  "wf_fs s_xa" "disk_availability s_xa = FILE_SYSTEM_SIZE"
  "c_str (file_name (directory s_xa ! 0)) = ''x''"
  "owned_blocks (directory s_xa ! 0) = []"
  "c_str (file_name (directory s_xa ! 1)) = ''a''"
  "size_bytes (directory s_xa ! 1) = 0"
  "\<forall>j. 1 < j \<and> j < DIRECTORY_SIZE \<longrightarrow> directory s_xa ! j = inode_init"
proof -
  note x = s_x_facts
  have len: "length ''a'' < FILE_NAME_FIELD" "length (contents file_empty) \<le> MAX_FILE_SIZE"
    "length (contents file_empty) \<le> disk_availability s_x" "1 < DIRECTORY_SIZE"
    by (simp_all add: FILE_NAME_FIELD_def contents_empty DIRECTORY_SIZE_def)
  show "put s_x (\<lambda>_. Some file_empty) 0 (Some ''a'') = Inr (PutOk, s_xa)"
    unfolding s_xa_def
    using put_ok [OF x(2) regex_match_a len(1) _ readable_empty len(2,3),
        of "\<lambda>_. Some file_empty" 1 0]
    by (simp add: x(3))
  show "wf_fs s_xa"
    unfolding s_xa_def using x(2) len(4,1,2,3) by (rule wf_put_state)
  show "disk_availability s_xa = FILE_SYSTEM_SIZE"
    unfolding s_xa_def disk_availability_put_state [OF x(2) len(3)]
    by (simp add: x(4) contents_empty blocks_needed_def)
  have other: "directory s_xa ! j = directory s_x ! j" if "j \<noteq> 1" for j
    unfolding s_xa_def using put_state_other [OF x(2) len(4,2,3) that] .
  show "c_str (file_name (directory s_xa ! 0)) = ''x''" "owned_blocks (directory s_xa ! 0) = []"
    by (simp_all add: other x(5,6))
  show "\<forall>j. 1 < j \<and> j < DIRECTORY_SIZE \<longrightarrow> directory s_xa ! j = inode_init"
    using other x(7) by simp
  show "c_str (file_name (directory s_xa ! 1)) = ''a''" "size_bytes (directory s_xa ! 1) = 0"
    unfolding s_xa_def put_state_entry [OF x(2) len(4,2,3)]
    by (simp_all add: c_str_def NUL_def contents_empty)
qed

lemma s_a_facts:
  "delete s_xa (Some ''x'') = Inr (DeleteOk, s_a)"
  "wf_fs s_a" "get_new_file_entry s_a = 0" "disk_availability s_a = FILE_SYSTEM_SIZE"
  "c_str (file_name (directory s_a ! 1)) = ''a''"
  "size_bytes (directory s_a ! 1) = 0"
  "\<forall>j. 1 < j \<and> j < DIRECTORY_SIZE \<longrightarrow> directory s_a ! j = inode_init"
proof -
  note xa = s_xa_facts
  have idx: "0 < DIRECTORY_SIZE"
    by (simp add: DIRECTORY_SIZE_def)
  show "delete s_xa (Some ''x'') = Inr (DeleteOk, s_a)"
    unfolding s_a_def using delete_ok [OF xa(2) idx xa(4)]
    by (simp add: xa(5) MAX_FILE_BLOCKS_eq)
  show "wf_fs s_a"
    unfolding s_a_def using xa(2) idx by (rule wf_delete_state)
  have len: "0 < length (directory s_xa)"
    using xa(2) by (simp add: wf_fs_def DIRECTORY_SIZE_def)
  have "used (directory s_a ! 0) = 0"
    using len by (simp add: s_a_def delete_state_def Let_def UNSET_def)
  then show "get_new_file_entry s_a = 0"
    using get_new_file_entry_eq [of 0 s_a] idx by simp
  have "used_space s_a = used_space s_xa"
    by (simp add: s_a_def delete_state_def Let_def xa(5))
  then show "disk_availability s_a = FILE_SYSTEM_SIZE"
    using xa(3) by (simp add: disk_availability_eq)
  have other: "directory s_a ! j = directory s_xa ! j" if "j \<noteq> 0" for j
    using that by (simp add: s_a_def delete_state_def Let_def)
  show "c_str (file_name (directory s_a ! 1)) = ''a''" "size_bytes (directory s_a ! 1) = 0"
    "\<forall>j. 1 < j \<and> j < DIRECTORY_SIZE \<longrightarrow> directory s_a ! j = inode_init"
    using xa(6,7,8) by (simp_all add: other)
qed

lemma s_aa_facts:
  "put s_a (\<lambda>_. Some file_abc) 0 (Some ''a'') = Inr (PutOk, s_aa)"
  "get s_aa (\<lambda>_. True) (Some ''a'') None = Inr (GetOk ''a'' [])"
proof -
  note a = s_a_facts
  have len: "length ''a'' < FILE_NAME_FIELD" "length (contents file_abc) \<le> MAX_FILE_SIZE"
    "length (contents file_abc) \<le> disk_availability s_a" "0 < DIRECTORY_SIZE"
    by (simp_all add: FILE_NAME_FIELD_def contents_abc DIRECTORY_SIZE_def MAX_FILE_SIZE_def
        a(4) FILE_SYSTEM_SIZE_def)
  show "put s_a (\<lambda>_. Some file_abc) 0 (Some ''a'') = Inr (PutOk, s_aa)"
    unfolding s_aa_def
    using put_ok [OF a(2) regex_match_a len(1) _ readable_abc len(2,3),
        of "\<lambda>_. Some file_abc" 0 0]
    by (simp add: a(3))
  have other: "directory s_aa ! j = directory s_a ! j" if "j \<noteq> 0" for j
    unfolding s_aa_def using put_state_other [OF a(2) len(4,2,3) that] .
  have "\<forall>j. 1 < j \<and> j < DIRECTORY_SIZE \<longrightarrow> c_str (file_name (directory s_aa ! j)) \<noteq> ''a''"
    using a(7) by (simp add: other c_str_init)
  moreover have "c_str (file_name (directory s_aa ! 1)) = ''a''"
    using a(5) by (simp add: other)
  ultimately have "get_lookup (directory s_aa) ''a'' 0 (- 1) = 1"
    using get_lookup_last [of 1 "directory s_aa" "''a''" "- 1"]
    by (simp add: DIRECTORY_SIZE_def)
  moreover have "size_bytes (directory s_aa ! Suc 0) = 0"
    using a(6) by (simp add: other)
  moreover have "long_of_ulong 0 = 0"
    by (simp add: long_of_ulong_def)
  ultimately show "get s_aa (\<lambda>_. True) (Some ''a'') None = Inr (GetOk ''a'' [])"
    by (simp add: get_def Let_def get_empty_file fopen_w_def)
qed

text \<open>
  After \<^verbatim>\<open>put x\<close>, \<^verbatim>\<open>put a\<close> (both of an empty file) and \<^verbatim>\<open>del x\<close>, slot 0 is free and slot 1
  holds an empty file named \<^verbatim>\<open>a\<close>. A \<^verbatim>\<open>put a\<close> of the bytes 1, 2, 3 then succeeds and writes
  slot 0, and the \<^verbatim>\<open>get a\<close> that follows writes the empty file of slot 1.
\<close>

theorem put_get_round_trip_counterexample:
  "put fs_init (\<lambda>_. Some file_empty) 0 (Some ''x'') = Inr (PutOk, s_x) \<and>
   put s_x (\<lambda>_. Some file_empty) 0 (Some ''a'') = Inr (PutOk, s_xa) \<and>
   delete s_xa (Some ''x'') = Inr (DeleteOk, s_a) \<and>
   wf_fs s_a \<and> regex_match ''a'' \<and> contents file_abc = [1, 2, 3] \<and>
   put s_a (\<lambda>_. Some file_abc) 0 (Some ''a'') = Inr (PutOk, s_aa) \<and>
   get s_aa (\<lambda>_. True) (Some ''a'') None = Inr (GetOk ''a'' [])"
  by (simp add: s_x_facts(1) s_xa_facts(1) s_a_facts(1,2) s_aa_facts regex_match_a contents_abc)

subsection \<open>Read errors\<close>

lemma fread_block_not_failing:
  assumes "\<not> read_fails f offset"
  shows "\<exists>items eof.
      fread_block f offset = (take BLOCK_SIZE (drop offset (contents f)), items, eof) \<and>
      (items = 0 \<and> \<not> eof) = False"
proof (cases "length (take BLOCK_SIZE (drop offset (contents f))) = BLOCK_SIZE")
  case True
  with assms show ?thesis
    by (auto simp add: fread_block_def Let_def simp del: length_take)
next
  case False
  moreover have "length (take BLOCK_SIZE (drop offset (contents f))) \<le> BLOCK_SIZE"
    by simp
  ultimately have "length (take BLOCK_SIZE (drop offset (contents f))) < BLOCK_SIZE"
    by linarith
  with assms False show ?thesis
    by (auto simp add: fread_block_def Let_def simp del: length_take)
qed

lemma put_copy_read_error:
  assumes "read_error_at f = Some e" "e < length (contents f)" "offset \<le> e"
    "int e < int offset + copy_size" "length (used_space s) = TOTAL_BLOCKS"
    "(e - offset) div BLOCK_SIZE = k" "k < length (free_blocks (used_space s))"
    "counter + k \<le> MAX_FILE_BLOCKS"
  shows "put_copy f idx copy_size offset counter s =
           Inr (False, counter + k,
                copy_steps f idx offset counter (take k (free_blocks (used_space s))) s)"
  using assms
proof (induction k arbitrary: copy_size offset counter s)
  case 0
  have pos: "0 < copy_size"
    using "0.prems"(3,4) by linarith
  obtain b rest where fb: "free_blocks (used_space s) = b # rest"
    using "0.prems"(7) by (cases "free_blocks (used_space s)") auto
  have b: "b < TOTAL_BLOCKS"
    using free_blocks_bound [of b "used_space s"] fb by simp
  have gfb: "get_free_block s = int b"
    by (simp add: get_free_block_eq fb)
  have "e < offset + BLOCK_SIZE"
    using "0.prems"(3,6) by (simp add: BLOCK_SIZE_def div_eq_0_iff)
  then have "read_fails f offset"
    using "0.prems"(1,2,3) by (simp add: read_fails_def)
  then have fr: "fread_block f offset = ([], 0, False)"
    by (simp add: fread_block_def)
  show ?case
    using pos b gfb by (subst put_copy.simps) (simp add: fr Let_def)
next
  case (Suc k)
  have far: "offset + BLOCK_SIZE \<le> e"
    using Suc.prems(3,6) unfolding BLOCK_SIZE_def by linarith
  have pos: "0 < copy_size"
    using Suc.prems(3,4) by linarith
  obtain b rest where fb: "free_blocks (used_space s) = b # rest"
    using Suc.prems(7) by (cases "free_blocks (used_space s)") auto
  have b: "b < TOTAL_BLOCKS"
    using free_blocks_bound [of b "used_space s"] fb by simp
  have gfb: "get_free_block s = int b"
    by (simp add: get_free_block_eq fb)
  have cnt: "counter < MAX_FILE_BLOCKS"
    using Suc.prems(8) by simp
  have "\<not> read_fails f offset"
    using Suc.prems(1) far by (simp add: read_fails_def)
  then obtain items eof where
    fr: "fread_block f offset = (take BLOCK_SIZE (drop offset (contents f)), items, eof)"
    and ok: "(items = 0 \<and> \<not> eof) = False"
    using fread_block_not_failing [of f offset] by blast
  let ?s2 = "copy_step f idx offset counter b s"
  have us2: "used_space ?s2 = (used_space s)[b := SET]"
    by (simp add: copy_step_def Let_def)
  have fb2: "free_blocks (used_space ?s2) = rest"
    using free_blocks_alloc [OF fb Suc.prems(5)] us2 by simp
  have k: "(e - (offset + BLOCK_SIZE)) div BLOCK_SIZE = k"
    using Suc.prems(3,6) far unfolding BLOCK_SIZE_def by linarith
  have IH: "put_copy f idx (copy_size - int BLOCK_SIZE) (offset + BLOCK_SIZE) (counter + 1) ?s2 =
      Inr (False, counter + 1 + k,
           copy_steps f idx (offset + BLOCK_SIZE) (counter + 1) (take k rest) ?s2)"
    using Suc.IH [where copy_size = "copy_size - int BLOCK_SIZE" and offset = "offset + BLOCK_SIZE"
        and counter = "counter + 1" and s = ?s2]
      Suc.prems fb2 us2 fb far k by simp
  have step: "put_copy f idx copy_size offset counter s =
      put_copy f idx (copy_size - int BLOCK_SIZE) (offset + BLOCK_SIZE) (counter + 1) ?s2"
    using pos b cnt gfb
    by (subst put_copy.simps) (simp add: fr ok Let_def copy_step_def del: length_take)
  show ?case
    using IH by (simp add: step fb)
qed

lemma put_read_error:
  assumes wf: "wf_fs s" and name: "regex_match name"
    and host: "host name = Some f" "read_error_at f = Some e" "e < length (contents f)"
    and size: "length (contents f) \<le> MAX_FILE_SIZE" "length (contents f) \<le> disk_availability s"
    and slot: "get_new_file_entry s = int idx"
  shows "put s host now (Some name) =
           Inr (ReadError,
                copy_steps f idx 0 0 (take (e div BLOCK_SIZE) (free_blocks (used_space s))) s)"
proof -
  let ?len = "length (contents f)"
  have "e < BLOCK_SIZE * length (free_blocks (used_space s))"
    using host(3) size(2) by (simp add: disk_availability_eq)
  then have k_free: "e div BLOCK_SIZE < length (free_blocks (used_space s))"
    by (simp add: BLOCK_SIZE_def div_less_iff_less_mult mult.commute)
  have "e < MAX_FILE_SIZE"
    using host(3) size(1) by simp
  then have k_max: "0 + e div BLOCK_SIZE \<le> MAX_FILE_BLOCKS"
    by (simp add: MAX_FILE_SIZE_def MAX_FILE_BLOCKS_eq BLOCK_SIZE_def)
  have copy: "put_copy f idx (int ?len) 0 0 s =
      Inr (False, 0 + e div BLOCK_SIZE,
           copy_steps f idx 0 0 (take (e div BLOCK_SIZE) (free_blocks (used_space s))) s)"
    using host(3) wf by (intro put_copy_read_error [OF host(2) _ _ _ _ _ k_free k_max])
      (simp_all add: wf_fs_def)
  have long: "\<not> MAX_FILE_NAME < length name"
    using name by (simp add: regex_match_def MAX_FILE_NAME_def)
  have nofull: "int idx \<noteq> - 1"
    by simp
  show ?thesis
    unfolding put_def Let_def
    using name host(1) size slot nofull long
    by (simp add: size_cast_small long_of_ulong_small copy)
qed

text \<open>Every message of \<^verbatim>\<open>put\<close> but the read error leaves the state as it was.\<close>

lemma put_rejected_unchanged:
  assumes "put s host now arg = Inr (st, s')" "st \<noteq> PutOk" "st \<noteq> ReadError"
  shows "s' = s"
proof (cases arg)
  case None
  with assms show ?thesis by (simp add: put_def)
next
  case (Some name)
  show ?thesis
  proof (cases "host name")
    case None
    with Some assms show ?thesis
      by (auto simp: put_def Let_def split: if_splits)
  next
    case f: (Some f)
    let ?fsz = "size_cast (length (contents f))"
    show ?thesis
    proof (cases "MAX_FILE_NAME < length name \<or> \<not> regex_match name \<or> MAX_FILE_SIZE < ?fsz \<or>
        disk_availability s < ?fsz \<or> get_new_file_entry s = - 1")
      case True
      with Some f assms(1) show ?thesis
        by (auto simp: put_def Let_def split: if_splits)
    next
      case False
      with Some f assms show ?thesis
        by (auto simp: put_def Let_def split: sum.splits prod.splits if_splits)
    qed
  qed
qed

text \<open>The free bytes and the bytes of the blocks in use add up to the size of the disk.\<close>

lemma space_accounting:
  "disk_availability s +
     BLOCK_SIZE * length (filter (\<lambda>b. used_space s ! b \<noteq> 0) [0..<TOTAL_BLOCKS]) =
   TOTAL_BLOCKS * BLOCK_SIZE"
proof -
  have "length (filter (\<lambda>b. used_space s ! b = 0) [0..<TOTAL_BLOCKS]) +
      length (filter (\<lambda>b. used_space s ! b \<noteq> 0) [0..<TOTAL_BLOCKS]) = TOTAL_BLOCKS"
    using sum_length_filter_compl [of "\<lambda>b. used_space s ! b = 0" "[0..<TOTAL_BLOCKS]"] by simp
  then show ?thesis
    by (simp add: disk_availability_eq free_blocks_def flip: distrib_left mult.commute)
qed

subsection \<open>A read error in the third block\<close>

lemma s_leak_facts:
  "put fs_init (\<lambda>_. Some file_bad) 0 (Some ''a'') = Inr (ReadError, s_leak)"
  "used_space s_leak ! 0 = SET" "used_space s_leak ! 1 = SET"
  "blocks (directory s_leak ! 0) = 0 # 1 # replicate 46 0"
  "list_all (\<lambda>e. used e = 0) (directory s_leak)"
proof -
  have c: "contents file_bad = replicate 6144 7" "read_error_at file_bad = Some 4096"
    by (simp_all add: file_bad_def)
  have "[0..<2] = [0, Suc 0]"
    by (simp add: numeral_2_eq_2)
  then have "take (4096 div BLOCK_SIZE) (free_blocks (used_space fs_init)) = [0, 1]"
    by (simp add: free_blocks_fs_init BLOCK_SIZE_def TOTAL_BLOCKS_eq)
  then show "put fs_init (\<lambda>_. Some file_bad) 0 (Some ''a'') = Inr (ReadError, s_leak)"
    unfolding s_leak_def
    using put_read_error [OF wf_fs_init regex_match_a _ c(2), of "\<lambda>_. Some file_bad" 0 0]
    by (simp add: c(1) MAX_FILE_SIZE_def disk_availability_init FILE_SYSTEM_SIZE_def
        get_new_file_entry_init)
  have len: "length (used_space fs_init) = TOTAL_BLOCKS" "0 < length (directory fs_init)"
    "length (blocks (directory fs_init ! 0)) = MAX_FILE_BLOCKS"
    using wf_fs_init by (simp_all add: wf_fs_def wf_inode_def list_all_length DIRECTORY_SIZE_def)
  show "used_space s_leak ! 0 = SET" "used_space s_leak ! 1 = SET"
    unfolding s_leak_def
    by (rule used_space_copy_steps_set; simp add: len(1) TOTAL_BLOCKS_eq)+
  have dir: "directory s_leak = (directory fs_init)[0 := (directory fs_init ! 0)
      \<lparr>blocks := take 0 (blocks (directory fs_init ! 0)) @ map int [0, 1] @
                 drop (0 + length [0 :: nat, 1]) (blocks (directory fs_init ! 0))\<rparr>]"
    unfolding s_leak_def using len(2,3)
    by (intro directory_copy_steps) (simp_all add: MAX_FILE_BLOCKS_eq)
  show "blocks (directory s_leak ! 0) = 0 # 1 # replicate 46 0"
    using len(2)
    by (simp add: dir directory_init_nth DIRECTORY_SIZE_def inode_init_def MAX_FILE_BLOCKS_eq)
  have "list_all (\<lambda>e. used e = 0) (directory fs_init)"
    by (simp add: fs_init_def list_all_iff inode_init_def)
  then show "list_all (\<lambda>e. used e = 0) (directory s_leak)"
    unfolding dir by (rule list_all_update) (simp add: directory_init_nth DIRECTORY_SIZE_def inode_init_def)
qed

text \<open>
  C3 at a read error in the third block of a file of three blocks, put into the initial
  state: \<^verbatim>\<open>put\<close> returns with the read error message after it has marked blocks 0 and 1
  in use and has written them into the block list of slot 0.
\<close>

theorem put_read_error_not_atomic:
  "put fs_init (\<lambda>_. Some file_bad) 0 (Some ''a'') = Inr (ReadError, s_leak) \<and>
   used_space fs_init ! 0 = UNSET \<and> used_space fs_init ! 1 = UNSET \<and>
   used_space s_leak ! 0 = SET \<and> used_space s_leak ! 1 = SET \<and>
   blocks (directory fs_init ! 0) ! 1 = 0 \<and> blocks (directory s_leak ! 0) ! 1 = 1"
proof -
  have "used_space fs_init ! 0 = UNSET" "used_space fs_init ! 1 = UNSET"
    by (simp_all add: fs_init_def TOTAL_BLOCKS_eq UNSET_def)
  moreover have "blocks (directory fs_init ! 0) ! 1 = 0"
    by (simp add: directory_init_nth DIRECTORY_SIZE_def inode_init_def MAX_FILE_BLOCKS_eq)
  moreover have "blocks (directory s_leak ! 0) ! 1 = 1"
    by (simp add: s_leak_facts(4))
  ultimately show ?thesis
    by (simp add: s_leak_facts(1,2,3) del: One_nat_def)
qed

text \<open>
  C2 after the same \<^verbatim>\<open>put\<close>: blocks 0 and 1 are in use and no directory entry is used, and
  the free space is two blocks less than the disk.
\<close>

theorem put_read_error_leaks_blocks:
  "put fs_init (\<lambda>_. Some file_bad) 0 (Some ''a'') = Inr (ReadError, s_leak) \<and>
   used_space s_leak ! 0 = SET \<and> used_space s_leak ! 1 = SET \<and>
   list_all (\<lambda>e. used e = 0) (directory s_leak) \<and>
   disk_availability s_leak = TOTAL_BLOCKS * BLOCK_SIZE - 2 * BLOCK_SIZE"
proof -
  have "[0..<2] = [0, Suc 0]"
    by (simp add: numeral_2_eq_2)
  then have "free_blocks (used_space s_leak) = drop 2 (free_blocks (used_space fs_init))"
    unfolding s_leak_def
    using free_blocks_copy_steps [of fs_init 2 file_bad 0 0 0] wf_fs_init
    by (simp add: free_blocks_fs_init TOTAL_BLOCKS_eq wf_fs_def)
  then have "disk_availability s_leak = TOTAL_BLOCKS * BLOCK_SIZE - 2 * BLOCK_SIZE"
    by (simp add: disk_availability_eq free_blocks_fs_init TOTAL_BLOCKS_eq BLOCK_SIZE_def)
  then show ?thesis
    by (simp add: s_leak_facts del: One_nat_def)
qed

subsection \<open>The boundary of the free space\<close>

lemma s_full_nth:
  "j < 13 \<Longrightarrow> directory s_full ! j = full_entry j"
  "directory s_full ! 13 = last_entry"
  "13 < j \<Longrightarrow> j < DIRECTORY_SIZE \<Longrightarrow> directory s_full ! j = inode_init"
  by (simp_all add: s_full_def nth_append nth_Cons' DIRECTORY_SIZE_def)

lemma wf_full_entry: "k < 13 \<Longrightarrow> wf_inode (full_entry k)"
  by (simp add: wf_inode_def full_entry_def FILE_NAME_FIELD_def)

lemma wf_last_entry: "wf_inode last_entry"
  by (simp add: wf_inode_def last_entry_def FILE_NAME_FIELD_def MAX_FILE_BLOCKS_eq)

lemma wf_fs_full: "wf_fs s_full"
proof -
  have "list_all wf_inode (map full_entry [0..<13])"
    by (simp add: list_all_iff wf_full_entry)
  then show ?thesis
    by (simp add: wf_fs_def s_full_def wf_last_entry wf_inode_init list_all_iff DIRECTORY_SIZE_def)
qed

lemma s_full_facts:
  "disk_availability s_full = 0" "get_new_file_entry s_full = 14"
proof -
  have "free_blocks (replicate TOTAL_BLOCKS SET) = []"
    by (simp add: free_blocks_def filter_empty_conv SET_def)
  then show "disk_availability s_full = 0"
    by (simp add: disk_availability_eq s_full_def)
  have "used (directory s_full ! j) \<noteq> 0" if "j < 14" for j
  proof (cases "j < 13")
    case True
    then show ?thesis by (simp add: s_full_nth(1) full_entry_def SET_def)
  next
    case False
    with that have "j = 13" by simp
    then show ?thesis by (simp add: s_full_nth(2) last_entry_def SET_def)
  qed
  moreover have "used (directory s_full ! 14) = 0"
    by (simp add: s_full_nth(3) DIRECTORY_SIZE_def inode_init_def)
  ultimately show "get_new_file_entry s_full = 14"
    using get_new_file_entry_eq [of 14 s_full] by (simp add: DIRECTORY_SIZE_def)
qed

lemma contents_one: "contents file_one = [5]"
  by (simp add: file_one_def)

text \<open>
  C6: in a well-formed state, for a name that passes the checks of \<^verbatim>\<open>put\<close> and a host file
  of at most \<open>MAX_FILE_SIZE\<close> bytes: when the size of the file is exactly the free space,
  the file reads without error and a directory slot is free, \<^verbatim>\<open>put\<close> passes the space
  check, copies the file and returns without a message, the state being the one with the
  file stored in the first free slot (for a name of 255 characters the copy of the name
  is the one with the terminator at index 255, see C9). When the size is the free space
  plus one, \<^verbatim>\<open>put\<close> returns the message of not enough disk space and the state, block pool
  and directory, is the one before.
\<close>

theorem put_space_boundary:
  assumes "wf_fs s" "regex_match name" "host name = Some f"
    "length (contents f) \<le> MAX_FILE_SIZE"
  shows "(length (contents f) = disk_availability s \<and> readable f \<and>
          get_new_file_entry s \<noteq> - 1 \<longrightarrow>
            put s host now (Some name) =
              (if length name < FILE_NAME_FIELD
               then Inr (PutOk, put_state s f name now (nat (get_new_file_entry s)))
               else Inl (FileNameOverflow FILE_NAME_FIELD))) \<and>
         (length (contents f) = disk_availability s + 1 \<longrightarrow>
            put s host now (Some name) = Inr (NotEnoughSpace, s))"
proof (intro conjI impI)
  assume a: "length (contents f) = disk_availability s \<and> readable f \<and>
          get_new_file_entry s \<noteq> - 1"
  then obtain idx where idx: "get_new_file_entry s = int idx"
    by (cases s rule: get_new_file_entry_cases) auto
  have "put s host now (Some name) =
           (if length name < FILE_NAME_FIELD then Inr (PutOk, put_state s f name now idx)
            else Inl (FileNameOverflow FILE_NAME_FIELD))"
    using assms a idx by (intro put_copied) simp_all
  then show "put s host now (Some name) =
              (if length name < FILE_NAME_FIELD
               then Inr (PutOk, put_state s f name now (nat (get_new_file_entry s)))
               else Inl (FileNameOverflow FILE_NAME_FIELD))"
    by (simp add: idx)
next
  assume "length (contents f) = disk_availability s + 1"
  then show "put s host now (Some name) = Inr (NotEnoughSpace, s)"
    using assms by (simp add: put_def Let_def size_cast_small regex_match_def MAX_FILE_NAME_def)
qed

theorem put_space_boundary_witness:
  "wf_fs s_full \<and> regex_match ''a'' \<and> regex_match name_255 \<and>
   disk_availability s_full = 0 \<and> get_new_file_entry s_full = 14 \<and>
   put s_full (\<lambda>_. Some file_empty) 0 (Some ''a'') =
     Inr (PutOk, put_state s_full file_empty ''a'' 0 14) \<and>
   put s_full (\<lambda>_. Some file_one) 0 (Some ''a'') = Inr (NotEnoughSpace, s_full) \<and>
   put s_full (\<lambda>_. Some file_empty) 0 (Some name_255) = Inl (FileNameOverflow 255)"
proof -
  have "put s_full (\<lambda>_. Some file_empty) 0 (Some ''a'') =
      Inr (PutOk, put_state s_full file_empty ''a'' 0 14)"
    using put_space_boundary [OF wf_fs_full regex_match_a, of "\<lambda>_. Some file_empty" file_empty 0]
    by (simp add: contents_empty readable_empty s_full_facts FILE_NAME_FIELD_def)
  moreover have "put s_full (\<lambda>_. Some file_one) 0 (Some ''a'') = Inr (NotEnoughSpace, s_full)"
    using put_space_boundary [OF wf_fs_full regex_match_a, of "\<lambda>_. Some file_one" file_one 0]
    by (simp add: contents_one s_full_facts MAX_FILE_SIZE_def)
  moreover have "put s_full (\<lambda>_. Some file_empty) 0 (Some name_255) =
      Inl (FileNameOverflow 255)"
    using put_space_boundary [OF wf_fs_full regex_match_255, of "\<lambda>_. Some file_empty"
        file_empty 0]
    by (simp add: contents_empty readable_empty s_full_facts FILE_NAME_FIELD_def name_255_def)
  ultimately show ?thesis
    by (simp add: wf_fs_full regex_match_a regex_match_255 s_full_facts)
qed

end
